theory Spec2Isabelle
  imports Main "HOL-Library.Multiset"
begin

section \<open>Asset descriptor aggregation (octopus-reader, utils/assets-utils.ts)\<close>

text \<open>
  The aggregated descriptors of \<^verbatim>\<open>types/bitmap-assets.type.ts\<close> and of the font descriptor
  type, with the fields that \<^verbatim>\<open>keepUniqueBitmapAssetDescriptors\<close> and
  \<^verbatim>\<open>keepUniqueFontDescriptors\<close> read and write.  The font record's \<open>layerIds\<close> field is
  named \<open>fontLayerIds\<close> because record fields share one name space.
\<close>

type_synonym layerId = string

record aggregatedBitmapAssetDescriptor =
  name :: string
  layerIds :: "layerId list"
  prerendered :: bool

record aggregatedFontDescriptor =
  fontPostScriptName :: string
  fontPostScriptNameSynthetic :: bool
  fontTypes :: "string list"
  fontName :: string
  fontLayerIds :: "layerId list"

text \<open>
  Modelled from the spec: \<^verbatim>\<open>mergeArrays\<close> of \<^verbatim>\<open>utils/array-utils.ts\<close> is imported by
  \<^verbatim>\<open>assets-utils.ts\<close> but is not among the sources; the specification says that aggregation
  merges descriptors "by unioning their layer-id sets and (for fonts) their usage-type sets".
  The model keeps the first occurrence of every element of \<open>a\<close> followed by \<open>b\<close>, the
  insertion order of a JavaScript \<^verbatim>\<open>Set\<close>.
\<close>

fun uniq :: "'a list \<Rightarrow> 'a list \<Rightarrow> 'a list" where
  "uniq seen [] = []"
| "uniq seen (x # xs) = (if x \<in> set seen then uniq seen xs else x # uniq (x # seen) xs)"

definition mergeArrays :: "'a list \<Rightarrow> 'a list \<Rightarrow> 'a list" where
  "mergeArrays a b = uniq [] (a @ b)"

text \<open>
  The \<^verbatim>\<open>Map<string, Descriptor>\<close> of the source is an association list in insertion order:
  \<open>getDesc\<close> is \<^verbatim>\<open>Map.get\<close>, \<open>setDesc\<close> is \<^verbatim>\<open>Map.set\<close> (an existing key keeps its
  position, a new key is appended), and \<^verbatim>\<open>[...uniqueDescs.values()]\<close> is \<open>map snd\<close>.
\<close>

fun getDesc :: "(string \<times> 'd) list \<Rightarrow> string \<Rightarrow> 'd option" where
  "getDesc [] k = None"
| "getDesc ((k', d) # m) k = (if k' = k then Some d else getDesc m k)"

fun setDesc :: "(string \<times> 'd) list \<Rightarrow> string \<Rightarrow> 'd \<Rightarrow> (string \<times> 'd) list" where
  "setDesc [] k d = [(k, d)]"
| "setDesc ((k', d') # m) k d = (if k' = k then (k, d) # m else (k', d') # setDesc m k d)"

text \<open>
  The body of the \<^verbatim>\<open>forEach\<close> callback of \<^verbatim>\<open>keepUniqueBitmapAssetDescriptors\<close>: fetch the
  entry of this name or start one from the descriptor's \<open>name\<close> and \<open>prerendered\<close> with no
  layer ids, merge the layer ids into it, and store it.
\<close>

definition addBitmapAssetDesc ::
  "(string \<times> aggregatedBitmapAssetDescriptor) list \<Rightarrow> aggregatedBitmapAssetDescriptor
     \<Rightarrow> (string \<times> aggregatedBitmapAssetDescriptor) list" where
  "addBitmapAssetDesc uniqueDescs assetDesc =
     (let uniqueDesc = (case getDesc uniqueDescs (name assetDesc) of
                          Some d \<Rightarrow> d
                        | None \<Rightarrow> \<lparr>name = name assetDesc, layerIds = [],
                                    prerendered = prerendered assetDesc\<rparr>);
          uniqueDesc' = uniqueDesc\<lparr>layerIds := mergeArrays (layerIds uniqueDesc) (layerIds assetDesc)\<rparr>
      in setDesc uniqueDescs (name assetDesc) uniqueDesc')"

definition keepUniqueBitmapAssetDescriptors ::
  "aggregatedBitmapAssetDescriptor list \<Rightarrow> aggregatedBitmapAssetDescriptor list" where
  "keepUniqueBitmapAssetDescriptors bitmapAssetDescs =
     map snd (foldl addBitmapAssetDesc [] bitmapAssetDescs)"

text \<open>
  The body of the \<^verbatim>\<open>forEach\<close> callback of \<^verbatim>\<open>keepUniqueFontDescriptors\<close>.  A new entry starts
  with the descriptor's own \<open>fontTypes\<close>, which are then merged with themselves.
\<close>

definition addFontDesc ::
  "(string \<times> aggregatedFontDescriptor) list \<Rightarrow> aggregatedFontDescriptor
     \<Rightarrow> (string \<times> aggregatedFontDescriptor) list" where
  "addFontDesc uniqueDescs assetDesc =
     (let uniqueDesc = (case getDesc uniqueDescs (fontPostScriptName assetDesc) of
                          Some d \<Rightarrow> d
                        | None \<Rightarrow> \<lparr>fontPostScriptName = fontPostScriptName assetDesc,
                                    fontPostScriptNameSynthetic = fontPostScriptNameSynthetic assetDesc,
                                    fontTypes = fontTypes assetDesc,
                                    fontName = fontName assetDesc,
                                    fontLayerIds = []\<rparr>);
          uniqueDesc' = uniqueDesc\<lparr>fontTypes := mergeArrays (fontTypes uniqueDesc) (fontTypes assetDesc)\<rparr>;
          uniqueDesc'' = uniqueDesc'\<lparr>fontLayerIds :=
                            mergeArrays (fontLayerIds uniqueDesc') (fontLayerIds assetDesc)\<rparr>
      in setDesc uniqueDescs (fontPostScriptName assetDesc) uniqueDesc'')"

definition keepUniqueFontDescriptors ::
  "aggregatedFontDescriptor list \<Rightarrow> aggregatedFontDescriptor list" where
  "keepUniqueFontDescriptors fontDescs = map snd (foldl addFontDesc [] fontDescs)"

text \<open>
  What the aggregation is to compute, said directly.  The descriptors of one name, in input
  order, are its group; the merged descriptor of a name has the ids of its group, each once,
  in the order of first occurrence, and the remaining fields of the first descriptor of the
  group.
\<close>

definition bitmapGroup :: "string \<Rightarrow> aggregatedBitmapAssetDescriptor list \<Rightarrow> aggregatedBitmapAssetDescriptor list" where
  "bitmapGroup k xs = filter (\<lambda>x. name x = k) xs"

definition mergedBitmap :: "aggregatedBitmapAssetDescriptor list \<Rightarrow> string \<Rightarrow> aggregatedBitmapAssetDescriptor" where
  "mergedBitmap xs k =
     \<lparr>name = k,
      layerIds = uniq [] (concat (map layerIds (bitmapGroup k xs))),
      prerendered = prerendered (hd (bitmapGroup k xs))\<rparr>"

definition fontGroup :: "string \<Rightarrow> aggregatedFontDescriptor list \<Rightarrow> aggregatedFontDescriptor list" where
  "fontGroup k xs = filter (\<lambda>x. fontPostScriptName x = k) xs"

definition mergedFont :: "aggregatedFontDescriptor list \<Rightarrow> string \<Rightarrow> aggregatedFontDescriptor" where
  "mergedFont xs k =
     \<lparr>fontPostScriptName = k,
      fontPostScriptNameSynthetic = fontPostScriptNameSynthetic (hd (fontGroup k xs)),
      fontTypes = uniq [] (concat (map fontTypes (fontGroup k xs))),
      fontName = fontName (hd (fontGroup k xs)),
      fontLayerIds = uniq [] (concat (map fontLayerIds (fontGroup k xs)))\<rparr>"

text \<open>
  A descriptor up to the order of its ids, and a result up to the order of its descriptors.
\<close>

definition bitmapUpToOrder ::
  "aggregatedBitmapAssetDescriptor list \<Rightarrow> (string \<times> layerId set \<times> bool) set" where
  "bitmapUpToOrder ds = (\<lambda>d. (name d, set (layerIds d), prerendered d)) ` set ds"

definition fontUpToOrder ::
  "aggregatedFontDescriptor list \<Rightarrow> (string \<times> bool \<times> string set \<times> string \<times> layerId set) set" where
  "fontUpToOrder ds =
     (\<lambda>d. (fontPostScriptName d, fontPostScriptNameSynthetic d, set (fontTypes d), fontName d,
            set (fontLayerIds d))) ` set ds"

text \<open>Descriptors of one name agree on the fields that are not merged.\<close>

definition bitmapsAgree :: "aggregatedBitmapAssetDescriptor list \<Rightarrow> bool" where
  "bitmapsAgree xs \<longleftrightarrow>
     (\<forall>x \<in> set xs. \<forall>y \<in> set xs. name x = name y \<longrightarrow> prerendered x = prerendered y)"

definition fontsAgree :: "aggregatedFontDescriptor list \<Rightarrow> bool" where
  "fontsAgree xs \<longleftrightarrow>
     (\<forall>x \<in> set xs. \<forall>y \<in> set xs. fontPostScriptName x = fontPostScriptName y \<longrightarrow>
        fontPostScriptNameSynthetic x = fontPostScriptNameSynthetic y \<and> fontName x = fontName y)"

section \<open>The loading pipeline (sdk, rendering): data\<close>

text \<open>
  Identifiers are the opaque strings of the source.  An \<open>octopusDocument\<close> stands for the
  artboard content; the pipeline only stores it and hands it on.
\<close>

type_synonym artboardId = string

type_synonym componentId = string

type_synonym pageId = string

type_synonym octopusDocument = string

text \<open>
  Every \<^verbatim>\<open>throw new Error('...')\<close> of the source is \<open>Error\<close> with its message; the error
  thrown by \<^verbatim>\<open>cancelToken.throwIfCancelled()\<close> is \<open>OperationCancelled\<close>.
\<close>

datatype error = Error string | OperationCancelled

text \<open>
  The rendering commands sent by \<^verbatim>\<open>RenderingSession.execCommand\<close> in this pipeline, with the
  fields that vary (the design id and the asset and font directories of a session are fixed):
  \<^verbatim>\<open>load-artboard\<close> carries artboard, file, symbol and page; \<^verbatim>\<open>load-font\<close> carries key, file
  and face name; \<^verbatim>\<open>load-image\<close> carries key and file.
\<close>

datatype command =
    CreateDesign
  | LoadArtboardCmd artboardId string "componentId option" "pageId option"
  | GetArtboardDependencies artboardId
  | LoadFontCmd string string "string option"
  | LoadImageCmd string string
  | FinalizeArtboard artboardId
  | UnloadArtboardCmd artboardId

text \<open>
  Every request the pipeline makes to a collaborator whose code is outside it: the rendering
  process, the local design (\<^verbatim>\<open>LocalDesign\<close>, the content store on disk), the API design
  (\<^verbatim>\<open>IApiDesign\<close>, the remote content store) and the font source.
\<close>

datatype event =
    ExecCommand command
  | HasArtboardContent artboardId
  | GetArtboardContentJsonStream artboardId
  | SaveArtboardContentJsonStream artboardId
  | GetArtboardContent artboardId
  | ApiGetArtboardContent artboardId
  | GetArtboardContentFilename artboardId
  | ResolveBitmapAsset string
  | GetBitmapAssetStream string
  | SaveBitmapAssetStream string
  | ResolveFontPath string

text \<open>The result object of a rendering command: its \<^verbatim>\<open>ok\<close> flag and, for
  \<^verbatim>\<open>get-artboard-dependencies\<close>, its \<^verbatim>\<open>symbols\<close>.\<close>

record commandResult =
  ok :: bool
  symbols :: "componentId list option"

text \<open>
  The collaborators are parameters.  Each reply is an arbitrary function of the history of
  requests made so far (the request being answered included) and of the request's arguments;
  \<open>Inl\<close> is a rejected promise.  How a collaborator reacts to the cancel token it is handed
  is part of that arbitrary behaviour.  \<open>firstBranchGoesOn\<close> is the order in which replies
  arrive for two calls under \<^verbatim>\<open>Promise.all\<close>: after the history given, the reply awaited
  by the first call arrives before the one awaited by the second.  \<open>bitmapAssetsOf\<close> and \<open>fontsOf\<close> are the artboard
  entity's \<^verbatim>\<open>getBitmapAssets\<close> and \<^verbatim>\<open>getFonts\<close>, which read the loaded content.
\<close>

record env =
  execCommandReply :: "event list \<Rightarrow> command \<Rightarrow> error + commandResult"
  hasArtboardContentReply :: "event list \<Rightarrow> artboardId \<Rightarrow> error + bool"
  getArtboardContentJsonStreamReply :: "event list \<Rightarrow> artboardId \<Rightarrow> error + unit"
  saveArtboardContentJsonStreamReply :: "event list \<Rightarrow> artboardId \<Rightarrow> error + unit"
  getArtboardContentReply :: "event list \<Rightarrow> artboardId \<Rightarrow> error + octopusDocument"
  apiGetArtboardContentReply :: "event list \<Rightarrow> artboardId \<Rightarrow> error + octopusDocument"
  getArtboardContentFilenameReply :: "event list \<Rightarrow> artboardId \<Rightarrow> error + string option"
  resolveBitmapAssetReply :: "event list \<Rightarrow> string \<Rightarrow> error + (bool \<times> string)"
  getBitmapAssetStreamReply :: "event list \<Rightarrow> string \<Rightarrow> error + unit"
  saveBitmapAssetStreamReply :: "event list \<Rightarrow> string \<Rightarrow> error + string"
  resolveFontPathReply :: "event list \<Rightarrow> string \<Rightarrow> error + (string \<times> string) option"
  firstBranchGoesOn :: "event list \<Rightarrow> bool"
  bitmapAssetsOf :: "octopusDocument option \<Rightarrow> aggregatedBitmapAssetDescriptor list"
  fontsOf :: "octopusDocument option \<Rightarrow> aggregatedFontDescriptor list"

text \<open>A JavaScript promise kept in a field: not settled yet, fulfilled, or rejected.\<close>

datatype promise = Pending | Fulfilled | RejectedWith error

text \<open>
  The artboard entity of the design (octopus-reader): its component id, its page id and its
  content; \<^verbatim>\<open>isLoaded()\<close> is that the content is there, \<^verbatim>\<open>setOctopus\<close> stores it and
  \<^verbatim>\<open>unload()\<close> drops it.
\<close>

record artboardEntity =
  componentId :: "componentId option"
  pageId :: "pageId option"
  octopus :: "octopusDocument option"

text \<open>\<^verbatim>\<open>RenderingArtboard\<close>: the fields \<^verbatim>\<open>_ready\<close> and \<^verbatim>\<open>_pendingSymbolIds\<close>.\<close>

record renderingArtboard =
  ready :: bool
  pendingSymbolIds :: "componentId list"

text \<open>
  The mutable state the pipeline works on, and the log of its requests.
  \<^item> \<open>localDesign\<close>, \<open>apiDesign\<close>, \<open>renderingDesign\<close>, \<open>fontSource\<close>: whether the field of
    that name of \<^verbatim>\<open>DesignFacade\<close> is non-null.
  \<^item> \<open>artboardsById\<close>, \<open>artboardsByComponentId\<close>: the design entity's artboards and its
    index from a component id to the artboard defining it.
  \<^item> \<open>loadingArtboardPromises\<close>: \<^verbatim>\<open>DesignFacade._loadingArtboardPromises\<close>.
  \<^item> \<open>designPromise\<close>: \<^verbatim>\<open>RenderingSession._designPromise\<close>.
  \<^item> \<open>artboards\<close>, \<open>loadedBitmaps\<close>, \<open>loadedFonts\<close>: the fields \<^verbatim>\<open>_artboards\<close>,
    \<^verbatim>\<open>_loadedBitmaps\<close>, \<^verbatim>\<open>_loadedFonts\<close> of \<^verbatim>\<open>RenderingDesign\<close>.
  \<^item> \<open>trace\<close>: every request made to a collaborator, in the order made.
\<close>

record world =
  localDesign :: bool
  apiDesign :: bool
  renderingDesign :: bool
  fontSource :: bool
  artboardsById :: "artboardId \<rightharpoonup> artboardEntity"
  artboardsByComponentId :: "componentId \<rightharpoonup> artboardId"
  loadingArtboardPromises :: "artboardId \<rightharpoonup> promise"
  designPromise :: "promise option"
  artboards :: "artboardId \<rightharpoonup> renderingArtboard"
  loadedBitmaps :: "string set"
  loadedFonts :: "string set"
  trace :: "event list"

text \<open>
  The parameters of \<^verbatim>\<open>_loadRenderingDesignArtboard\<close>.  A cancel token is absent (\<open>None\<close>) or
  is the moment it is cancelled: \<open>Some t\<close> is cancelled as soon as \<open>t\<close> requests have been
  made, so \<open>Some 0\<close> is cancelled from the start and \<open>Some t\<close> with \<open>t\<close> the position of a
  request is cancelled while that request is under way.
\<close>

record params =
  loadAssets :: bool
  cancelToken :: "nat option"

section \<open>Asynchronous functions as resumptions\<close>

text \<open>
  An \<^verbatim>\<open>async\<close> function is a program that reads the state (\<open>Rd\<close>), writes it (\<open>Wr\<close>),
  waits (\<open>Pause\<close>), returns (\<open>Done\<close>) or throws (\<open>Fail\<close>).  \<open>Pause g p\<close> is an
  \<^verbatim>\<open>await\<close>: the task is suspended and can go on with \<open>p\<close> once \<open>g\<close> holds of the state;
  for a request to a collaborator \<open>g\<close> is always true (the reply can come at any time), for a
  promise stored in the state \<open>g\<close> is that it is settled.  Everything between two pauses runs
  without interruption, as on JavaScript's single thread.  \<open>Diverge\<close> is a recursion that ran
  out of its fuel.
\<close>

datatype 'a prog =
    Done 'a
  | Fail error
  | Diverge
  | Rd "world \<Rightarrow> 'a prog"
  | Wr world "'a prog"
  | Pause "world \<Rightarrow> bool" "'a prog"

text \<open>Sequencing (\<^verbatim>\<open>const a = await p; ...\<close>) and \<^verbatim>\<open>try ... catch\<close>.\<close>

primrec bind :: "'a prog \<Rightarrow> ('a \<Rightarrow> 'b prog) \<Rightarrow> 'b prog" where
  "bind (Done a) f = f a"
| "bind (Fail e) f = Fail e"
| "bind Diverge f = Diverge"
| "bind (Rd k) f = Rd (\<lambda>w. bind (k w) f)"
| "bind (Wr w p) f = Wr w (bind p f)"
| "bind (Pause g p) f = Pause g (bind p f)"

primrec tryCatch :: "'a prog \<Rightarrow> (error \<Rightarrow> 'a prog) \<Rightarrow> 'a prog" where
  "tryCatch (Done a) h = Done a"
| "tryCatch (Fail e) h = h e"
| "tryCatch Diverge h = Diverge"
| "tryCatch (Rd k) h = Rd (\<lambda>w. tryCatch (k w) h)"
| "tryCatch (Wr w p) h = Wr w (tryCatch p h)"
| "tryCatch (Pause g p) h = Pause g (tryCatch p h)"

definition modify :: "(world \<Rightarrow> world) \<Rightarrow> unit prog" where
  "modify f = Rd (\<lambda>w. Wr (f w) (Done ()))"

text \<open>
  A request to a collaborator: it is logged when it is made, the task waits, and the reply is
  the collaborator's answer to the history as it stands when the task goes on.
\<close>

definition request :: "event \<Rightarrow> (event list \<Rightarrow> error + 'a) \<Rightarrow> 'a prog" where
  "request ev reply =
     Rd (\<lambda>w. Wr (w\<lparr>trace := trace w @ [ev]\<rparr>)
       (Pause (\<lambda>_. True)
         (Rd (\<lambda>w'. case reply (trace w') of Inl e \<Rightarrow> Fail e | Inr a \<Rightarrow> Done a))))"

text \<open>\<^verbatim>\<open>await promise\<close> for a promise held in the state: wait until it is settled, then
  go on or rethrow its rejection.\<close>

definition settled :: "promise option \<Rightarrow> bool" where
  "settled p \<longleftrightarrow> p \<noteq> Some Pending"

definition awaitPromise :: "(world \<Rightarrow> promise option) \<Rightarrow> unit prog" where
  "awaitPromise sel =
     Pause (\<lambda>w. settled (sel w))
       (Rd (\<lambda>w. case sel w of Some (RejectedWith e) \<Rightarrow> Fail e | _ \<Rightarrow> Done ()))"

text \<open>\<^verbatim>\<open>cancelToken?.throwIfCancelled()\<close>.\<close>

definition isCancelled :: "nat option \<Rightarrow> world \<Rightarrow> bool" where
  "isCancelled tok w = (case tok of None \<Rightarrow> False | Some t \<Rightarrow> t \<le> length (trace w))"

definition throwIfCancelled :: "nat option \<Rightarrow> unit prog" where
  "throwIfCancelled tok = Rd (\<lambda>w. if isCancelled tok w then Fail OperationCancelled else Done ())"

text \<open>
  Modelled from the spec: \<^verbatim>\<open>sequence\<close> of \<^verbatim>\<open>utils/async-utils.ts\<close> is imported by the
  pipeline but is not among the sources.  It awaits the callback for one item after the other
  ("recursively invoke ... for each pending dependency"), stops at the first rejection and
  returns the results.
\<close>

fun sequence :: "'a list \<Rightarrow> ('a \<Rightarrow> 'b prog) \<Rightarrow> 'b list prog" where
  "sequence [] f = Done []"
| "sequence (x # xs) f = bind (f x) (\<lambda>y. bind (sequence xs f) (\<lambda>ys. Done (y # ys)))"

definition settle :: "'a prog \<Rightarrow> (error + 'a) prog" where
  "settle p = tryCatch (bind p (\<lambda>a. Done (Inr a))) (\<lambda>e. Done (Inl e))"

text \<open>
  \<^verbatim>\<open>Promise.all([p, q])\<close>.  Both calls are made in the same synchronous block: the first
  runs up to its first \<^verbatim>\<open>await\<close>, then the second runs up to its first \<^verbatim>\<open>await\<close>.  From
  then on the caller waits until one of the two can go on, and that one runs up to its next
  \<^verbatim>\<open>await\<close>; when both can go on, \<open>first\<close> says of the history whether it is the first.
  The call returns when both have returned.  It is rejected with the error of the branch that
  is rejected first.  JavaScript does not stop the other branch: it goes on by itself, and the
  model lets it run to its end before the rejection is handed to the caller, so that all it
  still does is part of the run.
  \<^item> \<open>runLeft p first q\<close>: the first branch is running and has \<open>p\<close> left to do; the second
    branch \<open>q\<close> has not started or is suspended.
  \<^item> \<open>runRight q first g left goLeft\<close>: the second branch is running and has \<open>q\<close> left to do;
    the first branch is suspended as \<open>left\<close>, waiting for \<open>g\<close>, and \<open>goLeft\<close> is how the run
    continues when the first branch goes on.
\<close>

primrec runRight ::
  "'b prog \<Rightarrow> (event list \<Rightarrow> bool) \<Rightarrow> (world \<Rightarrow> bool) \<Rightarrow> 'a prog \<Rightarrow> ('b prog \<Rightarrow> unit prog)
     \<Rightarrow> unit prog" where
  "runRight (Done b) first g left goLeft = bind left (\<lambda>_. Done ())"
| "runRight (Fail e) first g left goLeft = bind (settle left) (\<lambda>_. Fail e)"
| "runRight Diverge first g left goLeft = Diverge"
| "runRight (Rd k) first g left goLeft = Rd (\<lambda>w. runRight (k w) first g left goLeft)"
| "runRight (Wr w q) first g left goLeft = Wr w (runRight q first g left goLeft)"
| "runRight (Pause h q) first g left goLeft =
     Pause (\<lambda>w. g w \<or> h w)
       (Rd (\<lambda>w. if g w \<and> (h w \<longrightarrow> first (trace w))
                then goLeft (Pause h q)
                else runRight q first g left goLeft))"

primrec runLeft :: "'a prog \<Rightarrow> (event list \<Rightarrow> bool) \<Rightarrow> 'b prog \<Rightarrow> unit prog" where
  "runLeft (Done a) first q = bind q (\<lambda>_. Done ())"
| "runLeft (Fail e) first q = bind (settle q) (\<lambda>_. Fail e)"
| "runLeft Diverge first q = Diverge"
| "runLeft (Rd k) first q = Rd (\<lambda>w. runLeft (k w) first q)"
| "runLeft (Wr w p) first q = Wr w (runLeft p first q)"
| "runLeft (Pause g p) first q = runRight q first g (Pause g p) (runLeft p first)"

definition promiseAll :: "(event list \<Rightarrow> bool) \<Rightarrow> 'a prog \<Rightarrow> 'b prog \<Rightarrow> unit prog" where
  "promiseAll first p q = runLeft p first q"

text \<open>JavaScript truthiness of an optional string (\<^verbatim>\<open>x || null\<close>, \<^verbatim>\<open>if (!x)\<close>).\<close>

definition truthy :: "string option \<Rightarrow> string option" where
  "truthy x = (case x of None \<Rightarrow> None | Some s \<Rightarrow> if s = [] then None else Some s)"

subsection \<open>Running programs\<close>

text \<open>
  \<open>drive\<close> runs one task alone to its end: every reply comes at once and nothing else happens
  in between.  The task returns, or it stops: it throws, it runs out of fuel, or it waits for a
  promise that nothing will settle (\<open>Blocked\<close>).
\<close>

datatype stop = Threw error | OutOfFuel | Blocked

datatype 'a outcome = Returned 'a | Stopped stop

primrec drive :: "'a prog \<Rightarrow> world \<Rightarrow> 'a outcome \<times> world" where
  "drive (Done a) w = (Returned a, w)"
| "drive (Fail e) w = (Stopped (Threw e), w)"
| "drive Diverge w = (Stopped OutOfFuel, w)"
| "drive (Rd k) w = drive (k w) w"
| "drive (Wr w' p) w = drive p w'"
| "drive (Pause g p) w = (if g w then drive p w else (Stopped Blocked, w))"

text \<open>
  Tasks running together.  \<open>advance\<close> runs a task up to its next \<^verbatim>\<open>await\<close>; \<open>resume\<close> lets
  a suspended task go on when what it waits for is there; \<open>start\<close> issues calls one after the
  other in one synchronous block, each running up to its first \<^verbatim>\<open>await\<close>; \<open>run\<close> follows a
  schedule, the list of the tasks that go on, in order.
\<close>

primrec advance :: "'a prog \<Rightarrow> world \<Rightarrow> 'a prog \<times> world" where
  "advance (Done a) w = (Done a, w)"
| "advance (Fail e) w = (Fail e, w)"
| "advance Diverge w = (Diverge, w)"
| "advance (Rd k) w = advance (k w) w"
| "advance (Wr w' p) w = advance p w'"
| "advance (Pause g p) w = (Pause g p, w)"

definition resume :: "'a prog \<Rightarrow> world \<Rightarrow> 'a prog \<times> world" where
  "resume t w = (case t of Pause g p \<Rightarrow> if g w then advance p w else (t, w) | _ \<Rightarrow> (t, w))"

fun start :: "'a prog list \<Rightarrow> world \<Rightarrow> 'a prog list \<times> world" where
  "start [] w = ([], w)"
| "start (p # ps) w =
     (case advance p w of (t, w') \<Rightarrow> (case start ps w' of (ts, w'') \<Rightarrow> (t # ts, w'')))"

fun run :: "nat list \<Rightarrow> 'a prog list \<Rightarrow> world \<Rightarrow> 'a prog list \<times> world" where
  "run [] ts w = (ts, w)"
| "run (i # sched) ts w =
     (if i < length ts
      then (case resume (ts ! i) w of (t, w') \<Rightarrow> run sched (ts[i := t]) w')
      else run sched ts w)"

section \<open>The rendering package\<close>

subsection \<open>\<^verbatim>\<open>RenderingSession\<close> (rendering-session.ts)\<close>

definition createDesign :: "env \<Rightarrow> unit prog" where
  "createDesign env =
     bind (request (ExecCommand CreateDesign) (\<lambda>h. execCommandReply env h CreateDesign))
       (\<lambda>result. if \<not> ok result
          then Fail (Error ''Failed to create a design rendering session'')
          else Done ())"

text \<open>
  \<^verbatim>\<open>_ensureDesign\<close>: the first call stores the promise of \<^verbatim>\<open>_createDesign()\<close> and awaits it;
  every other call awaits the stored promise.  The first caller's wait for the promise it has
  just stored is the run of \<open>createDesign\<close> itself, after which the promise is settled.
\<close>

definition ensureDesign :: "env \<Rightarrow> unit prog" where
  "ensureDesign env =
     Rd (\<lambda>w. case designPromise w of
         None \<Rightarrow>
           Wr (w\<lparr>designPromise := Some Pending\<rparr>)
             (tryCatch
               (bind (createDesign env)
                  (\<lambda>_. modify (\<lambda>w. w\<lparr>designPromise := Some Fulfilled\<rparr>)))
               (\<lambda>e. bind (modify (\<lambda>w. w\<lparr>designPromise := Some (RejectedWith e)\<rparr>))
                  (\<lambda>_. Fail e)))
       | Some _ \<Rightarrow> awaitPromise designPromise)"

definition execCommand :: "env \<Rightarrow> command \<Rightarrow> commandResult prog" where
  "execCommand env cmd =
     bind (ensureDesign env)
       (\<lambda>_. request (ExecCommand cmd) (\<lambda>h. execCommandReply env h cmd))"

subsection \<open>\<^verbatim>\<open>RenderingArtboard\<close> (rendering-artboard.ts)\<close>

text \<open>Assignments to the fields of the rendering artboard registered under an id.\<close>

definition setPendingSymbolIds :: "artboardId \<Rightarrow> componentId list \<Rightarrow> world \<Rightarrow> world" where
  "setPendingSymbolIds artboardId ids w =
     (case artboards w artboardId of
        None \<Rightarrow> w
      | Some a \<Rightarrow> w\<lparr>artboards := (artboards w)(artboardId \<mapsto> a\<lparr>pendingSymbolIds := ids\<rparr>)\<rparr>)"

definition setReady :: "artboardId \<Rightarrow> bool \<Rightarrow> world \<Rightarrow> world" where
  "setReady artboardId b w =
     (case artboards w artboardId of
        None \<Rightarrow> w
      | Some a \<Rightarrow> w\<lparr>artboards := (artboards w)(artboardId \<mapsto> a\<lparr>ready := b\<rparr>)\<rparr>)"

definition getPendingArtboardDependencies :: "env \<Rightarrow> artboardId \<Rightarrow> componentId list prog" where
  "getPendingArtboardDependencies env artboardId =
     bind (execCommand env (GetArtboardDependencies artboardId))
       (\<lambda>dependencyResult. if \<not> ok dependencyResult
          then Fail (Error ''Failed to get pending artboard dependency list'')
          else Done (case symbols dependencyResult of None \<Rightarrow> [] | Some s \<Rightarrow> s))"

text \<open>\<^verbatim>\<open>RenderingArtboard.load\<close>; the result is the list it has stored in
  \<^verbatim>\<open>_pendingSymbolIds\<close>.\<close>

definition renderingArtboardLoad ::
  "env \<Rightarrow> artboardId \<Rightarrow> string \<Rightarrow> componentId option \<Rightarrow> pageId option \<Rightarrow> componentId list prog" where
  "renderingArtboardLoad env artboardId octopusFilename symbolId page =
     bind (execCommand env (LoadArtboardCmd artboardId octopusFilename symbolId page))
       (\<lambda>loadResult. if \<not> ok loadResult
          then Fail (Error ''Failed to load design artboard'')
          else bind (getPendingArtboardDependencies env artboardId)
            (\<lambda>pending. bind (modify (setPendingSymbolIds artboardId pending))
              (\<lambda>_. Done pending)))"

definition markAsReady :: "env \<Rightarrow> artboardId \<Rightarrow> unit prog" where
  "markAsReady env artboardId =
     bind (execCommand env (FinalizeArtboard artboardId))
       (\<lambda>finalizeResult. if \<not> ok finalizeResult
          then Fail (Error ''The artboard cannot be marked as ready'')
          else modify (setReady artboardId True))"

definition isArtboardReady :: "world \<Rightarrow> artboardId \<Rightarrow> bool" where
  "isArtboardReady w artboardId =
     (case artboards w artboardId of None \<Rightarrow> False | Some a \<Rightarrow> ready a)"

definition renderingArtboardUnload :: "env \<Rightarrow> artboardId \<Rightarrow> unit prog" where
  "renderingArtboardUnload env artboardId =
     Rd (\<lambda>w. if \<not> isArtboardReady w artboardId
        then Fail (Error ''The artboard is not ready'')
        else Wr (setReady artboardId False w)
          (bind (execCommand env (UnloadArtboardCmd artboardId))
            (\<lambda>result. if \<not> ok result
               then Fail (Error ''Failed to unload artboard'')
               else Done ())))"

subsection \<open>\<^verbatim>\<open>RenderingDesign\<close> (rendering-design.ts)\<close>

definition isArtboardLoaded :: "world \<Rightarrow> artboardId \<Rightarrow> bool" where
  "isArtboardLoaded w artboardId = (artboards w artboardId \<noteq> None)"

text \<open>
  \<^verbatim>\<open>RenderingDesign.loadArtboard\<close> returns the rendering artboard, of which the caller reads
  \<^verbatim>\<open>pendingSymbolIds\<close> at once; the model returns that list.  A new rendering artboard is
  created with \<^verbatim>\<open>ready: false\<close> and no pending symbol ids, and is stored before it is loaded.
\<close>

definition newRenderingArtboard :: "artboardId \<Rightarrow> world \<Rightarrow> world" where
  "newRenderingArtboard artboardId w =
     w\<lparr>artboards := (artboards w)(artboardId \<mapsto> \<lparr>ready = False, pendingSymbolIds = []\<rparr>)\<rparr>"

definition renderingDesignLoadArtboard ::
  "env \<Rightarrow> artboardId \<Rightarrow> string \<Rightarrow> componentId option \<Rightarrow> pageId option \<Rightarrow> componentId list prog" where
  "renderingDesignLoadArtboard env artboardId octopusFilename symbolId page =
     Rd (\<lambda>w. case artboards w artboardId of
         Some prevArtboard \<Rightarrow> Done (pendingSymbolIds prevArtboard)
       | None \<Rightarrow>
           Wr (newRenderingArtboard artboardId w)
             (renderingArtboardLoad env artboardId octopusFilename (truthy symbolId) (truthy page)))"

definition loadFont :: "env \<Rightarrow> string \<Rightarrow> string \<Rightarrow> string option \<Rightarrow> unit prog" where
  "loadFont env postscriptName filename facePostscriptName =
     Rd (\<lambda>w. if postscriptName \<in> loadedFonts w then Done ()
        else Wr (w\<lparr>loadedFonts := insert postscriptName (loadedFonts w)\<rparr>)
          (bind (execCommand env (LoadFontCmd postscriptName filename (truthy facePostscriptName)))
            (\<lambda>_. Done ())))"

definition loadImage :: "env \<Rightarrow> string \<Rightarrow> string \<Rightarrow> unit prog" where
  "loadImage env bitmapKey filename =
     Rd (\<lambda>w. if bitmapKey \<in> loadedBitmaps w then Done ()
        else bind (execCommand env (LoadImageCmd bitmapKey filename))
          (\<lambda>_. modify (\<lambda>w. w\<lparr>loadedBitmaps := insert bitmapKey (loadedBitmaps w)\<rparr>)))"

definition markArtboardAsReady :: "env \<Rightarrow> artboardId \<Rightarrow> unit prog" where
  "markArtboardAsReady env artboardId =
     Rd (\<lambda>w. case artboards w artboardId of
         None \<Rightarrow> Fail (Error ''No such artboard'')
       | Some _ \<Rightarrow> markAsReady env artboardId)"

definition renderingDesignUnloadArtboard :: "env \<Rightarrow> artboardId \<Rightarrow> unit prog" where
  "renderingDesignUnloadArtboard env artboardId =
     Rd (\<lambda>w. case artboards w artboardId of
         None \<Rightarrow> Fail (Error ''No such artboard'')
       | Some _ \<Rightarrow>
           bind (renderingArtboardUnload env artboardId)
             (\<lambda>_. modify (\<lambda>w. w\<lparr>artboards := (artboards w)(artboardId := None)\<rparr>)))"

section \<open>The sdk package\<close>

subsection \<open>Lookups of \<^verbatim>\<open>DesignFacade\<close> and \<^verbatim>\<open>ArtboardFacade\<close>\<close>

definition getArtboardById :: "world \<Rightarrow> artboardId \<Rightarrow> artboardEntity option" where
  "getArtboardById w artboardId = artboardsById w artboardId"

definition getArtboardByComponentId :: "world \<Rightarrow> componentId \<Rightarrow> artboardId option" where
  "getArtboardByComponentId w c =
     (case artboardsByComponentId w c of
        None \<Rightarrow> None
      | Some artboardId \<Rightarrow>
          (case getArtboardById w artboardId of None \<Rightarrow> None | Some _ \<Rightarrow> Some artboardId))"

definition isLoaded :: "world \<Rightarrow> artboardId \<Rightarrow> bool" where
  "isLoaded w artboardId =
     (case artboardsById w artboardId of None \<Rightarrow> False | Some e \<Rightarrow> octopus e \<noteq> None)"

definition octopusOf :: "world \<Rightarrow> artboardId \<Rightarrow> octopusDocument option" where
  "octopusOf w artboardId =
     (case artboardsById w artboardId of None \<Rightarrow> None | Some e \<Rightarrow> octopus e)"

definition setOctopus :: "artboardId \<Rightarrow> octopusDocument option \<Rightarrow> world \<Rightarrow> world" where
  "setOctopus artboardId content w =
     (case artboardsById w artboardId of
        None \<Rightarrow> w
      | Some e \<Rightarrow> w\<lparr>artboardsById := (artboardsById w)(artboardId \<mapsto> e\<lparr>octopus := content\<rparr>)\<rparr>)"

definition setLoadingArtboardPromise :: "artboardId \<Rightarrow> promise \<Rightarrow> world \<Rightarrow> world" where
  "setLoadingArtboardPromise artboardId p w =
     w\<lparr>loadingArtboardPromises := (loadingArtboardPromises w)(artboardId \<mapsto> p)\<rparr>"

subsection \<open>\<^verbatim>\<open>DesignFacade\<close>: artboard content (design-facade.ts)\<close>

definition loadArtboardContent :: "env \<Rightarrow> artboardId \<Rightarrow> octopusDocument prog" where
  "loadArtboardContent env artboardId =
     Rd (\<lambda>w.
       if localDesign w then
         bind (request (HasArtboardContent artboardId) (\<lambda>h. hasArtboardContentReply env h artboardId))
           (\<lambda>has.
             bind (if \<not> has then
                     (if \<not> apiDesign w
                      then Fail (Error ''The artboard is not locally available and the API is not configured'')
                      else bind (request (GetArtboardContentJsonStream artboardId)
                                   (\<lambda>h. getArtboardContentJsonStreamReply env h artboardId))
                             (\<lambda>_. request (SaveArtboardContentJsonStream artboardId)
                                   (\<lambda>h. saveArtboardContentJsonStreamReply env h artboardId)))
                   else Done ())
               (\<lambda>_. request (GetArtboardContent artboardId)
                       (\<lambda>h. getArtboardContentReply env h artboardId)))
       else if \<not> apiDesign w then Fail (Error ''The artboard cannot be loaded'')
       else request (ApiGetArtboardContent artboardId)
              (\<lambda>h. apiGetArtboardContentReply env h artboardId))"

text \<open>
  \<^verbatim>\<open>DesignFacade.loadArtboard\<close>.  With a promise stored for the artboard the call awaits it.
  Otherwise, when the artboard is not loaded, the call starts \<^verbatim>\<open>_loadArtboardContent\<close>, stores
  the promise of its result followed by \<^verbatim>\<open>setOctopus\<close>, and awaits it: the promise is pending
  while the content is read, fulfilled when the content has been set, rejected with the error
  of the read.  The returned facade is the artboard asked for.
\<close>

definition loadArtboard :: "env \<Rightarrow> artboardId \<Rightarrow> unit prog" where
  "loadArtboard env artboardId =
     Rd (\<lambda>w. case getArtboardById w artboardId of
         None \<Rightarrow> Fail (Error ''No such artboard'')
       | Some _ \<Rightarrow>
           (case loadingArtboardPromises w artboardId of
              Some _ \<Rightarrow> awaitPromise (\<lambda>w. loadingArtboardPromises w artboardId)
            | None \<Rightarrow>
                if \<not> isLoaded w artboardId then
                  Wr (setLoadingArtboardPromise artboardId Pending w)
                    (tryCatch
                      (bind (loadArtboardContent env artboardId)
                        (\<lambda>content. modify (\<lambda>w. setLoadingArtboardPromise artboardId Fulfilled
                                                 (setOctopus artboardId (Some content) w))))
                      (\<lambda>e. bind (modify (setLoadingArtboardPromise artboardId (RejectedWith e)))
                              (\<lambda>_. Fail e)))
                else Done ()))"

definition unloadArtboard :: "env \<Rightarrow> artboardId \<Rightarrow> unit prog" where
  "unloadArtboard env artboardId =
     Rd (\<lambda>w. case getArtboardById w artboardId of
         None \<Rightarrow> Fail (Error ''No such artboard'')
       | Some _ \<Rightarrow>
           if \<not> isLoaded w artboardId then Done ()
           else Wr (setOctopus artboardId None w)
             (if renderingDesign w then renderingDesignUnloadArtboard env artboardId else Done ()))"

subsection \<open>\<^verbatim>\<open>ArtboardFacade\<close> (artboard-facade.ts)\<close>

definition artboardLoad :: "env \<Rightarrow> artboardId \<Rightarrow> unit prog" where
  "artboardLoad env artboardId =
     Rd (\<lambda>w. if isLoaded w artboardId then Done () else loadArtboard env artboardId)"

definition getBitmapAssets :: "env \<Rightarrow> artboardId \<Rightarrow> aggregatedBitmapAssetDescriptor list prog" where
  "getBitmapAssets env artboardId =
     bind (artboardLoad env artboardId)
       (\<lambda>_. Rd (\<lambda>w. Done (bitmapAssetsOf env (octopusOf w artboardId))))"

definition getFonts :: "env \<Rightarrow> artboardId \<Rightarrow> aggregatedFontDescriptor list prog" where
  "getFonts env artboardId =
     bind (artboardLoad env artboardId)
       (\<lambda>_. Rd (\<lambda>w. Done (fontsOf env (octopusOf w artboardId))))"

subsection \<open>\<^verbatim>\<open>DesignFacade\<close>: assets and the rendering load (design-facade.ts)\<close>

definition downloadBitmapAsset :: "env \<Rightarrow> aggregatedBitmapAssetDescriptor \<Rightarrow> string prog" where
  "downloadBitmapAsset env bitmapAssetDesc =
     Rd (\<lambda>w.
       if \<not> apiDesign w then Fail (Error ''The API is not configured, cannot download bitmap assets'')
       else if \<not> localDesign w then Fail (Error ''The design is not configured to be a local file'')
       else bind (request (ResolveBitmapAsset (name bitmapAssetDesc))
                    (\<lambda>h. resolveBitmapAssetReply env h (name bitmapAssetDesc)))
              (\<lambda>(available, filename).
                 if available then Done filename
                 else bind (request (GetBitmapAssetStream (name bitmapAssetDesc))
                              (\<lambda>h. getBitmapAssetStreamReply env h (name bitmapAssetDesc)))
                        (\<lambda>_. request (SaveBitmapAssetStream (name bitmapAssetDesc))
                                (\<lambda>h. saveBitmapAssetStreamReply env h (name bitmapAssetDesc)))))"

text \<open>
  \<^verbatim>\<open>downloadBitmapAssets\<close> returns an object keyed by the asset name: the \<^verbatim>\<open>forEach\<close>
  assigns \<^verbatim>\<open>bitmapAssetFilenames[name] = filename\<close> for one descriptor after the other, so a
  name that occurs again keeps its place and takes the later filename.
\<close>

definition downloadBitmapAssets ::
  "env \<Rightarrow> aggregatedBitmapAssetDescriptor list \<Rightarrow> (string \<times> string) list prog" where
  "downloadBitmapAssets env bitmapAssetDescs =
     bind (sequence bitmapAssetDescs (downloadBitmapAsset env))
       (\<lambda>filenames.
          Done (foldl (\<lambda>bitmapAssetFilenames (bitmapAssetDesc, filename).
                         setDesc bitmapAssetFilenames (name bitmapAssetDesc) filename)
                  [] (zip bitmapAssetDescs filenames)))"

definition loadFontsToRendering :: "env \<Rightarrow> nat option \<Rightarrow> aggregatedFontDescriptor list \<Rightarrow> unit prog" where
  "loadFontsToRendering env tok fonts =
     Rd (\<lambda>w.
       if \<not> fontSource w then Done ()
       else if \<not> renderingDesign w then Fail (Error ''The rendering engine is not configured'')
       else bind (sequence fonts (\<lambda>font.
              bind (request (ResolveFontPath (fontPostScriptName font))
                      (\<lambda>h. resolveFontPathReply env h (fontPostScriptName font)))
                (\<lambda>fontMatch. case fontMatch of
                     Some (fontFilename, fontPostscriptName) \<Rightarrow>
                       bind (loadFont env (fontPostScriptName font) fontFilename (Some fontPostscriptName))
                         (\<lambda>_. throwIfCancelled tok)
                   | None \<Rightarrow> Done ())))
            (\<lambda>_. Done ()))"

definition loadAssetsToRendering :: "env \<Rightarrow> nat option \<Rightarrow> artboardId \<Rightarrow> unit prog" where
  "loadAssetsToRendering env tok artboardId =
     bind (getBitmapAssets env artboardId) (\<lambda>bitmapAssetDescs.
     bind (throwIfCancelled tok) (\<lambda>_.
     bind (getFonts env artboardId) (\<lambda>fonts.
     bind (throwIfCancelled tok) (\<lambda>_.
     promiseAll (firstBranchGoesOn env)
       (downloadBitmapAssets env bitmapAssetDescs) (loadFontsToRendering env tok fonts)))))"

text \<open>
  \<^verbatim>\<open>DesignFacade._loadRenderingDesignArtboard\<close>, in three definitions.
  \<^item> \<open>loadDependency\<close> is the callback of \<^verbatim>\<open>sequence(desc.pendingSymbolIds, ...)\<close>: look the
    component up and load its artboard by the recursive call \<open>self\<close>.
  \<^item> \<open>loadSteps\<close> is the body after the guards, from \<^verbatim>\<open>await artboard.load(...)\<close> to the final
    check of the ready state; \<open>loadAssetsToRendering\<close> is the body of
    \<^verbatim>\<open>if (params.loadAssets)\<close>.
  \<^item> \<open>loadRenderingDesignArtboard\<close> is the function: its guards, then its steps with itself as
    \<open>self\<close>.  Its second argument bounds the depth of the recursive calls, and \<open>Diverge\<close> is
    a call chain deeper than the bound.
\<close>

definition loadDependency :: "(artboardId \<Rightarrow> unit prog) \<Rightarrow> componentId \<Rightarrow> unit prog" where
  "loadDependency self c =
     Rd (\<lambda>w. case getArtboardByComponentId w c of
         None \<Rightarrow> Fail (Error ''A dependency component artboard is not available'')
       | Some componentArtboardId \<Rightarrow> self componentArtboardId)"

definition checkReady :: "artboardId \<Rightarrow> unit prog" where
  "checkReady artboardId =
     Rd (\<lambda>w. if \<not> isArtboardReady w artboardId
        then Fail (Error ''The artboard failed to be loaded to a ready state'')
        else Done ())"

definition loadSteps ::
  "env \<Rightarrow> (artboardId \<Rightarrow> unit prog) \<Rightarrow> artboardId \<Rightarrow> artboardEntity \<Rightarrow> params \<Rightarrow> unit prog" where
  "loadSteps env self artboardId artboard ps =
     bind (artboardLoad env artboardId) (\<lambda>_.
     bind (request (GetArtboardContentFilename artboardId)
             (\<lambda>h. getArtboardContentFilenameReply env h artboardId)) (\<lambda>octopusFilename.
     case truthy octopusFilename of
       None \<Rightarrow> Fail (Error ''The artboard octopus location is not available'')
     | Some file \<Rightarrow>
     bind (renderingDesignLoadArtboard env artboardId file
             (componentId artboard) (pageId artboard)) (\<lambda>descPendingSymbolIds.
     bind (throwIfCancelled (cancelToken ps)) (\<lambda>_.
     bind (sequence descPendingSymbolIds (loadDependency self)) (\<lambda>_.
     bind (if loadAssets ps
           then loadAssetsToRendering env (cancelToken ps) artboardId
           else Done ()) (\<lambda>_.
     bind (markArtboardAsReady env artboardId) (\<lambda>_.
     bind (throwIfCancelled (cancelToken ps)) (\<lambda>_.
     checkReady artboardId))))))))"

fun loadRenderingDesignArtboard :: "env \<Rightarrow> nat \<Rightarrow> artboardId \<Rightarrow> params \<Rightarrow> unit prog" where
  "loadRenderingDesignArtboard env 0 artboardId ps = Diverge"
| "loadRenderingDesignArtboard env (Suc depth) artboardId ps =
     Rd (\<lambda>w.
       if \<not> renderingDesign w then Fail (Error ''The rendering engine is not configured'')
       else if isArtboardReady w artboardId then Done ()
       else if \<not> localDesign w then Fail (Error ''Local cache is not configured'')
       else (case getArtboardById w artboardId of
           None \<Rightarrow> Fail (Error ''No such artboard'')
         | Some artboard \<Rightarrow>
             loadSteps env (\<lambda>componentArtboardId.
                 loadRenderingDesignArtboard env depth componentArtboardId ps)
               artboardId artboard ps))"

section \<open>Notions used to state and prove the properties\<close>

text \<open>
  \<open>pres R p\<close>: every run of \<open>p\<close> alone takes a state to one related to it by \<open>R\<close>, however
  it ends; \<open>presAt\<close> is the same for runs from one state.  \<open>stable R\<close>: \<open>R\<close> is reflexive and
  transitive.  \<open>total p\<close>: no run of \<open>p\<close> alone runs out of fuel.
\<close>

definition presAt :: "(world \<Rightarrow> world \<Rightarrow> bool) \<Rightarrow> world \<Rightarrow> 'a prog \<Rightarrow> bool" where
  "presAt R w p \<longleftrightarrow> (\<forall>r w'. drive p w = (r, w') \<longrightarrow> R w w')"

definition pres :: "(world \<Rightarrow> world \<Rightarrow> bool) \<Rightarrow> 'a prog \<Rightarrow> bool" where
  "pres R p \<longleftrightarrow> (\<forall>w. presAt R w p)"

definition stable :: "(world \<Rightarrow> world \<Rightarrow> bool) \<Rightarrow> bool" where
  "stable R \<longleftrightarrow> (\<forall>w. R w w) \<and> (\<forall>a b c. R a b \<longrightarrow> R b c \<longrightarrow> R a c)"

definition total :: "'a prog \<Rightarrow> bool" where
  "total p \<longleftrightarrow> (\<forall>w. fst (drive p w) \<noteq> Stopped OutOfFuel)"

text \<open>
  \<open>safe R p\<close>: \<open>p\<close> never runs out of fuel, and every write of \<open>p\<close> takes the state as it is
  at that moment to one related to it by \<open>R\<close>, whatever other tasks have made of the state
  while \<open>p\<close> was waiting.  \<open>safeAt R p w\<close> is the same for \<open>p\<close> going on from the state \<open>w\<close>.
\<close>

primrec safeAt :: "(world \<Rightarrow> world \<Rightarrow> bool) \<Rightarrow> 'a prog \<Rightarrow> world \<Rightarrow> bool" where
  "safeAt R (Done a) w = True"
| "safeAt R (Fail e) w = True"
| "safeAt R Diverge w = False"
| "safeAt R (Rd k) w = safeAt R (k w) w"
| "safeAt R (Wr w' p) w = (R w w' \<and> safeAt R p w')"
| "safeAt R (Pause g p) w = (\<forall>w'. safeAt R p w')"

definition safe :: "(world \<Rightarrow> world \<Rightarrow> bool) \<Rightarrow> 'a prog \<Rightarrow> bool" where
  "safe R p \<longleftrightarrow> (\<forall>w. safeAt R p w)"

text \<open>The requests that mark an artboard as ready.\<close>

fun isFinalize :: "event \<Rightarrow> bool" where
  "isFinalize (ExecCommand (FinalizeArtboard a)) = True"
| "isFinalize _ = False"

text \<open>
  \<open>closedUnder R\<close>: \<open>R\<close> relates a state to the state after each elementary step made outside
  the registration and finalization of rendering artboards: logging a request that is not a
  \<^verbatim>\<open>finalize-artboard\<close>, storing a pending content promise for an artboard that has none,
  settling a pending content promise, setting an artboard's content, storing the design promise
  of the rendering session, and adding a font to the loaded fonts.
\<close>

definition closedUnder :: "(world \<Rightarrow> world \<Rightarrow> bool) \<Rightarrow> bool" where
  "closedUnder R \<longleftrightarrow>
     stable R
     \<and> (\<forall>w e. \<not> isFinalize e \<longrightarrow> R w (w\<lparr>trace := trace w @ [e]\<rparr>))
     \<and> (\<forall>w a. loadingArtboardPromises w a = None \<longrightarrow> R w (setLoadingArtboardPromise a Pending w))
     \<and> (\<forall>w a p. loadingArtboardPromises w a = Some Pending \<longrightarrow>
            R w (setLoadingArtboardPromise a p w))
     \<and> (\<forall>w a c. R w (setOctopus a (Some c) w))
     \<and> (\<forall>w p. R w (w\<lparr>designPromise := p\<rparr>))
     \<and> (\<forall>w n. R w (w\<lparr>loadedFonts := insert n (loadedFonts w)\<rparr>))"

text \<open>
  \<open>triple P p W K\<close>: a run of \<open>p\<close> alone from a state with \<open>P\<close> ends, when it returns \<open>a\<close>,
  in a state with \<open>K a\<close>, and, when it stops for the reason \<open>s\<close>, in a state with \<open>W s\<close>.
\<close>

definition triple ::
  "(world \<Rightarrow> bool) \<Rightarrow> 'a prog \<Rightarrow> (stop \<Rightarrow> world \<Rightarrow> bool) \<Rightarrow> ('a \<Rightarrow> world \<Rightarrow> bool) \<Rightarrow> bool" where
  "triple P p W K \<longleftrightarrow>
     (\<forall>w r w'. P w \<longrightarrow> drive p w = (r, w') \<longrightarrow>
        (case r of Returned a \<Rightarrow> K a w' | Stopped s \<Rightarrow> W s w'))"

text \<open>
  What a load never changes (\<open>staticEq\<close>): which collaborators are configured, the component
  index, which artboards exist, and their component and page ids.
\<close>

definition staticEq :: "world \<Rightarrow> world \<Rightarrow> bool" where
  "staticEq w w' \<longleftrightarrow>
     localDesign w' = localDesign w \<and> apiDesign w' = apiDesign w
     \<and> renderingDesign w' = renderingDesign w \<and> fontSource w' = fontSource w
     \<and> artboardsByComponentId w' = artboardsByComponentId w
     \<and> (\<forall>a. (artboardsById w' a = None) = (artboardsById w a = None))
     \<and> (\<forall>a e e'. artboardsById w a = Some e \<longrightarrow> artboardsById w' a = Some e' \<longrightarrow>
            componentId e' = componentId e \<and> pageId e' = pageId e)"

text \<open>
  How a load changes the state (\<open>grows\<close>): the log is extended; a registered rendering
  artboard stays registered with the same pending symbol ids, and stays ready once ready;
  loaded content stays loaded; a stored content promise stays stored, and stays as it is once
  it is settled.
\<close>

definition grows :: "world \<Rightarrow> world \<Rightarrow> bool" where
  "grows w w' \<longleftrightarrow>
     staticEq w w'
     \<and> (\<exists>evs. trace w' = trace w @ evs)
     \<and> (\<forall>a ra. artboards w a = Some ra \<longrightarrow>
           (\<exists>ra'. artboards w' a = Some ra' \<and> pendingSymbolIds ra' = pendingSymbolIds ra
                   \<and> (ready ra \<longrightarrow> ready ra')))
     \<and> (\<forall>a. isLoaded w a \<longrightarrow> isLoaded w' a)
     \<and> (\<forall>a. loadingArtboardPromises w a \<noteq> None \<longrightarrow> loadingArtboardPromises w' a \<noteq> None)
     \<and> (\<forall>a p. loadingArtboardPromises w a = Some p \<longrightarrow> p \<noteq> Pending \<longrightarrow>
           loadingArtboardPromises w' a = Some p)"

text \<open>
  A step that leaves the rendering artboards alone and sends no \<^verbatim>\<open>finalize-artboard\<close>
  (\<open>quiet\<close>).
\<close>

definition quiet :: "world \<Rightarrow> world \<Rightarrow> bool" where
  "quiet w w' \<longleftrightarrow>
     grows w w' \<and> artboards w' = artboards w
     \<and> (\<exists>evs. trace w' = trace w @ evs \<and> (\<forall>e \<in> set evs. \<not> isFinalize e))"

text \<open>
  The rendering process acknowledges the \<^verbatim>\<open>finalize-artboard\<close> of an artboard sent after
  the history \<open>h\<close>: its reply carries \<^verbatim>\<open>ok\<close>.
\<close>

definition okFinalize :: "env \<Rightarrow> event list \<Rightarrow> artboardId \<Rightarrow> bool" where
  "okFinalize env h a =
     (case execCommandReply env (h @ [ExecCommand (FinalizeArtboard a)]) (FinalizeArtboard a) of
        Inl _ \<Rightarrow> False
      | Inr r \<Rightarrow> ok r)"

definition finalizeSent :: "artboardId \<Rightarrow> world \<Rightarrow> world" where
  "finalizeSent a w = w\<lparr>trace := trace w @ [ExecCommand (FinalizeArtboard a)]\<rparr>"


text \<open>
  The registry of content loads between two states: \<open>keepsEntries\<close> is that every entry is
  still there, and unchanged if it was settled; \<open>sameEntities\<close> is that the registry and the
  design's artboard entities are the same.
\<close>

definition keepsEntries :: "world \<Rightarrow> world \<Rightarrow> bool" where
  "keepsEntries w w' \<longleftrightarrow>
     (\<forall>a. loadingArtboardPromises w a \<noteq> None \<longrightarrow> loadingArtboardPromises w' a \<noteq> None)
     \<and> (\<forall>a p. loadingArtboardPromises w a = Some p \<longrightarrow> p \<noteq> Pending \<longrightarrow>
           loadingArtboardPromises w' a = Some p)"

definition sameEntities :: "world \<Rightarrow> world \<Rightarrow> bool" where
  "sameEntities w w' \<longleftrightarrow>
     artboardsById w' = artboardsById w \<and> loadingArtboardPromises w' = loadingArtboardPromises w"


section \<open>An example design\<close>

text \<open>
  Collaborators that always succeed: every command is answered with \<^verbatim>\<open>ok\<close>, the content of
  every artboard is in the local cache, no font is found, and of two calls under
  \<^verbatim>\<open>Promise.all\<close> the first goes on first.  \<open>okEnvWith deps\<close> answers
  \<^verbatim>\<open>get-artboard-dependencies\<close> for an artboard with the symbol ids \<open>deps\<close> gives for it.
\<close>

definition okEnvWith :: "(artboardId \<Rightarrow> componentId list) \<Rightarrow> env" where
  "okEnvWith deps =
     \<lparr>execCommandReply = (\<lambda>h c. case c of
          GetArtboardDependencies a \<Rightarrow> Inr \<lparr>ok = True, symbols = Some (deps a)\<rparr>
        | _ \<Rightarrow> Inr \<lparr>ok = True, symbols = None\<rparr>),
      hasArtboardContentReply = (\<lambda>h a. Inr True),
      getArtboardContentJsonStreamReply = (\<lambda>h a. Inr ()),
      saveArtboardContentJsonStreamReply = (\<lambda>h a. Inr ()),
      getArtboardContentReply = (\<lambda>h a. Inr ''octopus''),
      apiGetArtboardContentReply = (\<lambda>h a. Inr ''octopus''),
      getArtboardContentFilenameReply = (\<lambda>h a. Inr (Some ''octopus.json'')),
      resolveBitmapAssetReply = (\<lambda>h n. Inr (True, ''bitmap.png'')),
      getBitmapAssetStreamReply = (\<lambda>h n. Inr ()),
      saveBitmapAssetStreamReply = (\<lambda>h n. Inr ''bitmap.png''),
      resolveFontPathReply = (\<lambda>h n. Inr None),
      firstBranchGoesOn = (\<lambda>h. True),
      bitmapAssetsOf = (\<lambda>d. []),
      fontsOf = (\<lambda>d. [])\<rparr>"

definition okEnv :: env where
  "okEnv = okEnvWith (\<lambda>a. [])"

text \<open>
  The design of the specification's scenario: artboard \<open>A\<close> and artboard \<open>B\<close>, which is the
  component \<open>sym1\<close>; nothing is loaded, nothing is registered with the rendering engine.
\<close>

definition exampleWorld :: world where
  "exampleWorld =
     \<lparr>localDesign = True, apiDesign = True, renderingDesign = True, fontSource = False,
      artboardsById = [''A'' \<mapsto> \<lparr>componentId = None, pageId = None, octopus = None\<rparr>,
                       ''B'' \<mapsto> \<lparr>componentId = Some ''sym1'', pageId = None, octopus = None\<rparr>],
      artboardsByComponentId = [''sym1'' \<mapsto> ''B''],
      loadingArtboardPromises = Map.empty,
      designPromise = None,
      artboards = Map.empty,
      loadedBitmaps = {}, loadedFonts = {}, trace = []\<rparr>"

definition noAssets :: params where
  "noAssets = \<lparr>loadAssets = False, cancelToken = None\<rparr>"


text \<open>Collaborators as in \<open>okEnv\<close>, but the local cache fails to read the content of any
  artboard.\<close>

definition brokenStoreEnv :: env where
  "brokenStoreEnv = okEnv\<lparr>getArtboardContentReply := (\<lambda>h a. Inl (Error ''The content cannot be read''))\<rparr>"


section \<open>Properties of the asset descriptor aggregation\<close>

lemma set_uniq: "set (uniq seen xs) = set xs - set seen"
  by (induction seen xs rule: uniq.induct) auto

lemma distinct_uniq: "distinct (uniq seen xs)"
  by (induction seen xs rule: uniq.induct) (auto simp: set_uniq)

lemma uniq_seen_cong: "set s1 = set s2 \<Longrightarrow> uniq s1 xs = uniq s2 xs"
proof (induction xs arbitrary: s1 s2)
  case Nil
  then show ?case by simp
next
  case (Cons x xs)
  have "uniq (x # s1) xs = uniq (x # s2) xs"
    by (rule Cons.IH) (simp add: Cons.prems)
  moreover have "uniq s1 xs = uniq s2 xs"
    by (rule Cons.IH) (rule Cons.prems)
  moreover have "x \<in> set s1 \<longleftrightarrow> x \<in> set s2"
    by (simp add: Cons.prems)
  ultimately show ?case by simp
qed

lemma uniq_all_seen: "set xs \<subseteq> set seen \<Longrightarrow> uniq seen xs = []"
  by (induction seen xs rule: uniq.induct) auto

lemma uniq_append: "uniq seen (a @ b) = uniq seen a @ uniq (a @ seen) b"
proof (induction seen a rule: uniq.induct)
  case (1 seen)
  then show ?case by simp
next
  case (2 seen x xs)
  have e1: "uniq (x # xs @ seen) b = uniq (xs @ seen) b" if "x \<in> set seen"
    using that by (intro uniq_seen_cong) auto
  have e2: "uniq (x # xs @ seen) b = uniq (xs @ x # seen) b"
    by (intro uniq_seen_cong) auto
  show ?case using 2 e1 e2 by simp
qed

lemma uniq_distinct_id: "distinct xs \<Longrightarrow> set xs \<inter> set seen = {} \<Longrightarrow> uniq seen xs = xs"
  by (induction seen xs rule: uniq.induct) auto

lemma set_mergeArrays: "set (mergeArrays a b) = set a \<union> set b"
  by (simp add: mergeArrays_def set_uniq)

lemma distinct_mergeArrays: "distinct (mergeArrays a b)"
  by (simp add: mergeArrays_def distinct_uniq)

lemma mergeArrays_absorb: "distinct a \<Longrightarrow> set b \<subseteq> set a \<Longrightarrow> mergeArrays a b = a"
  by (simp add: mergeArrays_def uniq_append uniq_distinct_id uniq_all_seen)

lemma getDesc_setDesc: "getDesc (setDesc m k d) k' = (if k' = k then Some d else getDesc m k')"
  by (induction m k d rule: setDesc.induct) auto

lemma setDesc_same: "getDesc m k = Some d \<Longrightarrow> setDesc m k d = m"
  by (induction m k rule: getDesc.induct) (auto split: if_splits)

lemma fst_set_setDesc: "fst ` set (setDesc m k d) = insert k (fst ` set m)"
  by (induction m k d rule: setDesc.induct) auto

lemma distinct_setDesc: "distinct (map fst m) \<Longrightarrow> distinct (map fst (setDesc m k d))"
  by (induction m k d rule: setDesc.induct) (auto simp: fst_set_setDesc)

lemma getDesc_Some_iff:
  "distinct (map fst m) \<Longrightarrow> getDesc m k = Some d \<longleftrightarrow> (k, d) \<in> set m"
  by (induction m k rule: getDesc.induct) (auto simp: rev_image_eqI)

lemma getDesc_None_iff: "getDesc m k = None \<longleftrightarrow> k \<notin> fst ` set m"
  by (induction m k rule: getDesc.induct) auto


lemma uniq_snoc: "uniq [] (A @ [k]) = (if k \<in> set A then uniq [] A else uniq [] A @ [k])"
  by (simp add: uniq_append)

lemma uniq_uniq_append: "uniq [] (uniq [] C @ b) = uniq [] (C @ b)"
proof -
  have "uniq [] (uniq [] C) = uniq [] C"
    by (rule uniq_distinct_id) (simp_all add: distinct_uniq)
  moreover have "uniq (uniq [] C @ []) b = uniq (C @ []) b"
    by (rule uniq_seen_cong) (simp add: set_uniq)
  ultimately show ?thesis by (simp add: uniq_append)
qed

lemma uniq_twice: "uniq [] (C @ C) = uniq [] C"
  by (simp add: uniq_append uniq_all_seen)

lemma mergeArrays_uniq: "mergeArrays (uniq [] C) b = uniq [] (C @ b)"
  by (simp add: mergeArrays_def uniq_uniq_append)

lemma mergeArrays_Nil: "mergeArrays [] b = uniq [] b"
  by (simp add: mergeArrays_def)

lemma getDesc_map:
  "getDesc (map (\<lambda>k. (k, f k)) ks) k = (if k \<in> set ks then Some (f k) else None)"
  by (induction ks) auto

lemma setDesc_map_in:
  "k \<in> set ks \<Longrightarrow> distinct ks \<Longrightarrow>
   setDesc (map (\<lambda>k. (k, f k)) ks) k v = map (\<lambda>k'. (k', if k' = k then v else f k')) ks"
  by (induction ks) auto

lemma setDesc_map_notin:
  "k \<notin> set ks \<Longrightarrow> setDesc (map (\<lambda>k. (k, f k)) ks) k v = map (\<lambda>k. (k, f k)) ks @ [(k, v)]"
  by (induction ks) auto

lemma bitmapGroup_snoc:
  "bitmapGroup k (xs @ [x]) = (if name x = k then bitmapGroup k xs @ [x] else bitmapGroup k xs)"
  by (simp add: bitmapGroup_def)

lemma bitmapGroup_nonempty: "k \<in> name ` set xs \<Longrightarrow> bitmapGroup k xs \<noteq> []"
  by (auto simp: bitmapGroup_def filter_empty_conv)

lemma bitmapGroup_empty: "k \<notin> name ` set xs \<Longrightarrow> bitmapGroup k xs = []"
  by (auto simp: bitmapGroup_def filter_empty_conv)

lemma foldl_addBitmapAssetDesc:
  "foldl addBitmapAssetDesc [] xs = map (\<lambda>k. (k, mergedBitmap xs k)) (uniq [] (map name xs))"
proof (induction xs rule: rev_induct)
  case Nil
  then show ?case by simp
next
  case (snoc x xs)
  let ?ks = "uniq [] (map name xs)"
  have ks: "set ?ks = name ` set xs" "distinct ?ks"
    by (simp_all add: set_uniq distinct_uniq)
  have other: "mergedBitmap (xs @ [x]) k = mergedBitmap xs k" if "k \<noteq> name x" for k
    using that by (simp add: mergedBitmap_def bitmapGroup_snoc)
  show ?case
  proof (cases "name x \<in> name ` set xs")
    case True
    have ne: "bitmapGroup (name x) xs \<noteq> []" using True by (rule bitmapGroup_nonempty)
    have upd: "(mergedBitmap xs (name x))\<lparr>layerIds :=
        mergeArrays (layerIds (mergedBitmap xs (name x))) (layerIds x)\<rparr> = mergedBitmap (xs @ [x]) (name x)"
      using ne by (simp add: mergedBitmap_def bitmapGroup_snoc mergeArrays_uniq)
    have "addBitmapAssetDesc (map (\<lambda>k. (k, mergedBitmap xs k)) ?ks) x =
        map (\<lambda>k'. (k', if k' = name x then mergedBitmap (xs @ [x]) (name x) else mergedBitmap xs k')) ?ks"
      using True ks upd by (simp add: addBitmapAssetDesc_def Let_def getDesc_map setDesc_map_in)
    also have "\<dots> = map (\<lambda>k. (k, mergedBitmap (xs @ [x]) k)) ?ks"
      by (rule map_cong) (auto simp: other)
    finally have step: "addBitmapAssetDesc (map (\<lambda>k. (k, mergedBitmap xs k)) ?ks) x =
        map (\<lambda>k. (k, mergedBitmap (xs @ [x]) k)) ?ks" .
    have ks': "uniq [] (map name (xs @ [x])) = ?ks"
      using True by (simp add: uniq_snoc)
    have "foldl addBitmapAssetDesc [] (xs @ [x]) =
        addBitmapAssetDesc (map (\<lambda>k. (k, mergedBitmap xs k)) ?ks) x"
      by (simp add: snoc.IH)
    also note step
    finally show ?thesis by (simp only: ks')
  next
    case False
    have grp: "bitmapGroup (name x) (xs @ [x]) = [x]"
      using False by (simp add: bitmapGroup_snoc bitmapGroup_empty)
    have new: "\<lparr>name = name x, layerIds = mergeArrays [] (layerIds x), prerendered = prerendered x\<rparr>
        = mergedBitmap (xs @ [x]) (name x)"
      by (simp add: mergedBitmap_def grp mergeArrays_Nil)
    have step: "addBitmapAssetDesc (map (\<lambda>k. (k, mergedBitmap xs k)) ?ks) x =
        map (\<lambda>k. (k, mergedBitmap xs k)) ?ks @ [(name x, mergedBitmap (xs @ [x]) (name x))]"
      using False ks new by (simp add: addBitmapAssetDesc_def Let_def getDesc_map setDesc_map_notin)
    have same: "map (\<lambda>k. (k, mergedBitmap xs k)) ?ks = map (\<lambda>k. (k, mergedBitmap (xs @ [x]) k)) ?ks"
    proof (rule map_cong)
      fix k assume "k \<in> set ?ks"
      then have "k \<in> name ` set xs" using ks(1) by simp
      then have "k \<noteq> name x" using False by blast
      then show "(k, mergedBitmap xs k) = (k, mergedBitmap (xs @ [x]) k)" by (simp add: other)
    qed simp
    have ks': "uniq [] (map name (xs @ [x])) = ?ks @ [name x]"
      using False by (simp add: uniq_snoc)
    have "foldl addBitmapAssetDesc [] (xs @ [x]) =
        addBitmapAssetDesc (map (\<lambda>k. (k, mergedBitmap xs k)) ?ks) x"
      by (simp add: snoc.IH)
    also have "\<dots> = map (\<lambda>k. (k, mergedBitmap xs k)) ?ks @ [(name x, mergedBitmap (xs @ [x]) (name x))]"
      by (rule step)
    also have "\<dots> = map (\<lambda>k. (k, mergedBitmap (xs @ [x]) k)) ?ks
        @ [(name x, mergedBitmap (xs @ [x]) (name x))]"
      by (simp only: same)
    also have "\<dots> = map (\<lambda>k. (k, mergedBitmap (xs @ [x]) k)) (?ks @ [name x])"
      by simp
    finally show ?thesis by (simp only: ks')
  qed
qed

lemma keepUniqueBitmapAssetDescriptors_eq:
  "keepUniqueBitmapAssetDescriptors xs = map (mergedBitmap xs) (uniq [] (map name xs))"
  by (simp add: keepUniqueBitmapAssetDescriptors_def foldl_addBitmapAssetDesc comp_def)


lemma fontGroup_snoc:
  "fontGroup k (xs @ [x]) =
     (if fontPostScriptName x = k then fontGroup k xs @ [x] else fontGroup k xs)"
  by (simp add: fontGroup_def)

lemma fontGroup_nonempty: "k \<in> fontPostScriptName ` set xs \<Longrightarrow> fontGroup k xs \<noteq> []"
  by (auto simp: fontGroup_def filter_empty_conv)

lemma fontGroup_empty: "k \<notin> fontPostScriptName ` set xs \<Longrightarrow> fontGroup k xs = []"
  by (auto simp: fontGroup_def filter_empty_conv)

lemma foldl_addFontDesc:
  "foldl addFontDesc [] xs = map (\<lambda>k. (k, mergedFont xs k)) (uniq [] (map fontPostScriptName xs))"
proof (induction xs rule: rev_induct)
  case Nil
  then show ?case by simp
next
  case (snoc x xs)
  let ?n = "fontPostScriptName x"
  let ?ks = "uniq [] (map fontPostScriptName xs)"
  have ks: "set ?ks = fontPostScriptName ` set xs" "distinct ?ks"
    by (simp_all add: set_uniq distinct_uniq)
  have other: "mergedFont (xs @ [x]) k = mergedFont xs k" if "k \<noteq> ?n" for k
    using that by (simp add: mergedFont_def fontGroup_snoc)
  have first: "foldl addFontDesc [] (xs @ [x]) = addFontDesc (map (\<lambda>k. (k, mergedFont xs k)) ?ks) x"
    by (simp add: snoc.IH)
  show ?case
  proof (cases "?n \<in> fontPostScriptName ` set xs")
    case True
    have ne: "fontGroup ?n xs \<noteq> []" using True by (rule fontGroup_nonempty)
    have upd: "(mergedFont xs ?n)\<lparr>fontTypes := mergeArrays (fontTypes (mergedFont xs ?n)) (fontTypes x),
        fontLayerIds := mergeArrays (fontLayerIds (mergedFont xs ?n)) (fontLayerIds x)\<rparr>
        = mergedFont (xs @ [x]) ?n"
      using ne by (simp add: mergedFont_def fontGroup_snoc mergeArrays_uniq)
    have "addFontDesc (map (\<lambda>k. (k, mergedFont xs k)) ?ks) x =
        map (\<lambda>k'. (k', if k' = ?n then mergedFont (xs @ [x]) ?n else mergedFont xs k')) ?ks"
      using True ks upd by (simp add: addFontDesc_def Let_def getDesc_map setDesc_map_in)
    also have "\<dots> = map (\<lambda>k. (k, mergedFont (xs @ [x]) k)) ?ks"
      by (rule map_cong) (auto simp: other)
    finally have step: "addFontDesc (map (\<lambda>k. (k, mergedFont xs k)) ?ks) x =
        map (\<lambda>k. (k, mergedFont (xs @ [x]) k)) ?ks" .
    have ks': "uniq [] (map fontPostScriptName (xs @ [x])) = ?ks"
      using True by (simp add: uniq_snoc)
    note first
    also note step
    finally show ?thesis by (simp only: ks')
  next
    case False
    have grp: "fontGroup ?n (xs @ [x]) = [x]"
      using False by (simp add: fontGroup_snoc fontGroup_empty)
    have new: "\<lparr>fontPostScriptName = ?n,
          fontPostScriptNameSynthetic = fontPostScriptNameSynthetic x,
          fontTypes = mergeArrays (fontTypes x) (fontTypes x),
          fontName = fontName x,
          fontLayerIds = mergeArrays [] (fontLayerIds x)\<rparr>
        = mergedFont (xs @ [x]) ?n"
      by (simp add: mergedFont_def grp mergeArrays_Nil mergeArrays_def uniq_twice)
    have step: "addFontDesc (map (\<lambda>k. (k, mergedFont xs k)) ?ks) x =
        map (\<lambda>k. (k, mergedFont xs k)) ?ks @ [(?n, mergedFont (xs @ [x]) ?n)]"
      using False ks new by (simp add: addFontDesc_def Let_def getDesc_map setDesc_map_notin)
    have same: "map (\<lambda>k. (k, mergedFont xs k)) ?ks = map (\<lambda>k. (k, mergedFont (xs @ [x]) k)) ?ks"
    proof (rule map_cong)
      fix k assume "k \<in> set ?ks"
      then have "k \<in> fontPostScriptName ` set xs" using ks(1) by simp
      then have "k \<noteq> ?n" using False by blast
      then show "(k, mergedFont xs k) = (k, mergedFont (xs @ [x]) k)" by (simp add: other)
    qed simp
    have ks': "uniq [] (map fontPostScriptName (xs @ [x])) = ?ks @ [?n]"
      using False by (simp add: uniq_snoc)
    note first
    also have "addFontDesc (map (\<lambda>k. (k, mergedFont xs k)) ?ks) x
        = map (\<lambda>k. (k, mergedFont xs k)) ?ks @ [(?n, mergedFont (xs @ [x]) ?n)]"
      by (rule step)
    also have "\<dots> = map (\<lambda>k. (k, mergedFont (xs @ [x]) k)) ?ks @ [(?n, mergedFont (xs @ [x]) ?n)]"
      by (simp only: same)
    also have "\<dots> = map (\<lambda>k. (k, mergedFont (xs @ [x]) k)) (?ks @ [?n])"
      by simp
    finally show ?thesis by (simp only: ks')
  qed
qed

lemma keepUniqueFontDescriptors_eq:
  "keepUniqueFontDescriptors xs = map (mergedFont xs) (uniq [] (map fontPostScriptName xs))"
  by (simp add: keepUniqueFontDescriptors_def foldl_addFontDesc comp_def)

lemma hd_append_same: "G \<noteq> [] \<Longrightarrow> hd (G @ G) = hd G"
  by simp

lemma mergedBitmap_twice: "k \<in> name ` set xs \<Longrightarrow> mergedBitmap (xs @ xs) k = mergedBitmap xs k"
  using bitmapGroup_nonempty[of k xs]
  by (simp add: mergedBitmap_def bitmapGroup_def uniq_twice)

lemma mergedFont_twice:
  "k \<in> fontPostScriptName ` set xs \<Longrightarrow> mergedFont (xs @ xs) k = mergedFont xs k"
  using fontGroup_nonempty[of k xs]
  by (simp add: mergedFont_def fontGroup_def uniq_twice)

lemma keepUniqueBitmap_dup:
  "keepUniqueBitmapAssetDescriptors (xs @ xs) = keepUniqueBitmapAssetDescriptors xs"
proof -
  have "uniq [] (map name (xs @ xs)) = uniq [] (map name xs)" by (simp add: uniq_twice)
  moreover have "map (mergedBitmap (xs @ xs)) (uniq [] (map name xs))
      = map (mergedBitmap xs) (uniq [] (map name xs))"
    by (rule map_cong) (simp_all add: set_uniq mergedBitmap_twice)
  ultimately show ?thesis by (simp only: keepUniqueBitmapAssetDescriptors_eq)
qed

lemma keepUniqueFont_dup:
  "keepUniqueFontDescriptors (xs @ xs) = keepUniqueFontDescriptors xs"
proof -
  have "uniq [] (map fontPostScriptName (xs @ xs)) = uniq [] (map fontPostScriptName xs)"
    by (simp add: uniq_twice)
  moreover have "map (mergedFont (xs @ xs)) (uniq [] (map fontPostScriptName xs))
      = map (mergedFont xs) (uniq [] (map fontPostScriptName xs))"
    by (rule map_cong) (simp_all add: set_uniq mergedFont_twice)
  ultimately show ?thesis by (simp only: keepUniqueFontDescriptors_eq)
qed

lemma bitmapUpToOrder_keepUnique:
  assumes "bitmapsAgree xs"
  shows "bitmapUpToOrder (keepUniqueBitmapAssetDescriptors xs) =
     (\<lambda>x. (name x, (\<Union>y \<in> {y \<in> set xs. name y = name x}. set (layerIds y)), prerendered x)) ` set xs"
proof -
  have pre: "prerendered (hd (bitmapGroup (name x) xs)) = prerendered x" if x: "x \<in> set xs" for x
  proof -
    have "bitmapGroup (name x) xs \<noteq> []" using x by (intro bitmapGroup_nonempty) simp
    then have "hd (bitmapGroup (name x) xs) \<in> set (bitmapGroup (name x) xs)" by (rule hd_in_set)
    then have "hd (bitmapGroup (name x) xs) \<in> set xs" "name (hd (bitmapGroup (name x) xs)) = name x"
      by (simp_all add: bitmapGroup_def)
    then show ?thesis using assms x unfolding bitmapsAgree_def by blast
  qed
  have ids: "set (layerIds (mergedBitmap xs k)) = (\<Union>y \<in> {y \<in> set xs. name y = k}. set (layerIds y))" for k
    by (auto simp: mergedBitmap_def set_uniq bitmapGroup_def)
  have "bitmapUpToOrder (keepUniqueBitmapAssetDescriptors xs)
      = (\<lambda>k. (k, (\<Union>y \<in> {y \<in> set xs. name y = k}. set (layerIds y)),
                prerendered (hd (bitmapGroup k xs)))) ` name ` set xs"
    unfolding bitmapUpToOrder_def keepUniqueBitmapAssetDescriptors_eq
    by (simp add: image_image set_uniq ids) (simp add: mergedBitmap_def)
  also have "\<dots> = (\<lambda>x. (name x, (\<Union>y \<in> {y \<in> set xs. name y = name x}. set (layerIds y)),
                prerendered (hd (bitmapGroup (name x) xs)))) ` set xs"
    by (simp add: image_image)
  also have "\<dots> = (\<lambda>x. (name x, (\<Union>y \<in> {y \<in> set xs. name y = name x}. set (layerIds y)),
                prerendered x)) ` set xs"
    by (rule image_cong) (simp_all add: pre)
  finally show ?thesis .
qed

lemma fontUpToOrder_keepUnique:
  assumes "fontsAgree xs"
  shows "fontUpToOrder (keepUniqueFontDescriptors xs) =
     (\<lambda>x. (fontPostScriptName x, fontPostScriptNameSynthetic x,
            (\<Union>y \<in> {y \<in> set xs. fontPostScriptName y = fontPostScriptName x}. set (fontTypes y)),
            fontName x,
            (\<Union>y \<in> {y \<in> set xs. fontPostScriptName y = fontPostScriptName x}. set (fontLayerIds y))))
       ` set xs"
proof -
  have pre: "fontPostScriptNameSynthetic (hd (fontGroup (fontPostScriptName x) xs)) = fontPostScriptNameSynthetic x
      \<and> fontName (hd (fontGroup (fontPostScriptName x) xs)) = fontName x" if x: "x \<in> set xs" for x
  proof -
    let ?G = "fontGroup (fontPostScriptName x) xs"
    have "?G \<noteq> []" using x by (intro fontGroup_nonempty) simp
    then have "hd ?G \<in> set ?G" by (rule hd_in_set)
    then have "hd ?G \<in> set xs" "fontPostScriptName (hd ?G) = fontPostScriptName x"
      by (simp_all add: fontGroup_def)
    then show ?thesis using assms x unfolding fontsAgree_def by blast
  qed
  have tys: "set (fontTypes (mergedFont xs k)) =
      (\<Union>y \<in> {y \<in> set xs. fontPostScriptName y = k}. set (fontTypes y))" for k
    by (auto simp: mergedFont_def set_uniq fontGroup_def)
  have ids: "set (fontLayerIds (mergedFont xs k)) =
      (\<Union>y \<in> {y \<in> set xs. fontPostScriptName y = k}. set (fontLayerIds y))" for k
    by (auto simp: mergedFont_def set_uniq fontGroup_def)
  have "fontUpToOrder (keepUniqueFontDescriptors xs)
      = (\<lambda>k. (k, fontPostScriptNameSynthetic (hd (fontGroup k xs)),
                (\<Union>y \<in> {y \<in> set xs. fontPostScriptName y = k}. set (fontTypes y)),
                fontName (hd (fontGroup k xs)),
                (\<Union>y \<in> {y \<in> set xs. fontPostScriptName y = k}. set (fontLayerIds y))))
          ` fontPostScriptName ` set xs"
    unfolding fontUpToOrder_def keepUniqueFontDescriptors_eq
    by (simp add: image_image set_uniq ids tys) (simp add: mergedFont_def)
  also have "\<dots> = (\<lambda>x. (fontPostScriptName x,
                fontPostScriptNameSynthetic (hd (fontGroup (fontPostScriptName x) xs)),
                (\<Union>y \<in> {y \<in> set xs. fontPostScriptName y = fontPostScriptName x}. set (fontTypes y)),
                fontName (hd (fontGroup (fontPostScriptName x) xs)),
                (\<Union>y \<in> {y \<in> set xs. fontPostScriptName y = fontPostScriptName x}. set (fontLayerIds y))))
          ` set xs"
    by (simp add: image_image)
  also have "\<dots> = (\<lambda>x. (fontPostScriptName x, fontPostScriptNameSynthetic x,
            (\<Union>y \<in> {y \<in> set xs. fontPostScriptName y = fontPostScriptName x}. set (fontTypes y)),
            fontName x,
            (\<Union>y \<in> {y \<in> set xs. fontPostScriptName y = fontPostScriptName x}. set (fontLayerIds y))))
       ` set xs"
    by (rule image_cong) (simp_all add: pre)
  finally show ?thesis .
qed

lemma bitmapsAgree_set: "set xs = set ys \<Longrightarrow> bitmapsAgree xs = bitmapsAgree ys"
  by (simp add: bitmapsAgree_def)

lemma fontsAgree_set: "set xs = set ys \<Longrightarrow> fontsAgree xs = fontsAgree ys"
  by (simp add: fontsAgree_def)

lemma uniq_rev_remdups: "uniq [] xs = rev (remdups (rev xs))"
  by (induction xs rule: rev_induct) (simp_all add: uniq_snoc)

lemma bitmapNameIds_keepUnique:
  "(\<lambda>d. (name d, set (layerIds d))) ` set (keepUniqueBitmapAssetDescriptors xs) =
     (\<lambda>x. (name x, (\<Union>y \<in> {y \<in> set xs. name y = name x}. set (layerIds y)))) ` set xs"
proof -
  have ids: "set (layerIds (mergedBitmap xs k)) = (\<Union>y \<in> {y \<in> set xs. name y = k}. set (layerIds y))" for k
    by (auto simp: mergedBitmap_def set_uniq bitmapGroup_def)
  have nm: "name (mergedBitmap xs k) = k" for k by (simp add: mergedBitmap_def)
  show ?thesis
    unfolding keepUniqueBitmapAssetDescriptors_eq
    by (simp add: image_image set_uniq ids nm)
qed

lemma fontNameIds_keepUnique:
  "(\<lambda>d. (fontPostScriptName d, set (fontTypes d), set (fontLayerIds d))) ` set (keepUniqueFontDescriptors xs) =
     (\<lambda>x. (fontPostScriptName x,
            (\<Union>y \<in> {y \<in> set xs. fontPostScriptName y = fontPostScriptName x}. set (fontTypes y)),
            (\<Union>y \<in> {y \<in> set xs. fontPostScriptName y = fontPostScriptName x}. set (fontLayerIds y)))) ` set xs"
proof -
  have tys: "set (fontTypes (mergedFont xs k)) =
      (\<Union>y \<in> {y \<in> set xs. fontPostScriptName y = k}. set (fontTypes y))" for k
    by (auto simp: mergedFont_def set_uniq fontGroup_def)
  have ids: "set (fontLayerIds (mergedFont xs k)) =
      (\<Union>y \<in> {y \<in> set xs. fontPostScriptName y = k}. set (fontLayerIds y))" for k
    by (auto simp: mergedFont_def set_uniq fontGroup_def)
  have nm: "fontPostScriptName (mergedFont xs k) = k" for k by (simp add: mergedFont_def)
  show ?thesis
    unfolding keepUniqueFontDescriptors_eq
    by (simp add: image_image set_uniq ids tys nm)
qed

lemma keepUniqueBitmap_names:
  "map name (keepUniqueBitmapAssetDescriptors xs) = rev (remdups (rev (map name xs)))"
  by (simp add: keepUniqueBitmapAssetDescriptors_eq comp_def mergedBitmap_def
      flip: uniq_rev_remdups)

lemma keepUniqueFont_names:
  "map fontPostScriptName (keepUniqueFontDescriptors xs) = rev (remdups (rev (map fontPostScriptName xs)))"
  by (simp add: keepUniqueFontDescriptors_eq comp_def mergedFont_def
      flip: uniq_rev_remdups)

lemma keepUniqueBitmap_members:
  assumes "d \<in> set (keepUniqueBitmapAssetDescriptors xs)"
  shows "prerendered d = prerendered (hd (filter (\<lambda>x. name x = name d) xs))
       \<and> distinct (layerIds d)
       \<and> set (layerIds d) = (\<Union>x \<in> {x \<in> set xs. name x = name d}. set (layerIds x))"
proof -
  from assms obtain k where d: "d = mergedBitmap xs k"
    unfolding keepUniqueBitmapAssetDescriptors_eq by auto
  show ?thesis unfolding d
    by (auto simp: mergedBitmap_def bitmapGroup_def set_uniq distinct_uniq)
qed

lemma keepUniqueFont_members:
  assumes "d \<in> set (keepUniqueFontDescriptors xs)"
  shows "fontName d = fontName (hd (filter (\<lambda>x. fontPostScriptName x = fontPostScriptName d) xs))
       \<and> fontPostScriptNameSynthetic d =
           fontPostScriptNameSynthetic (hd (filter (\<lambda>x. fontPostScriptName x = fontPostScriptName d) xs))
       \<and> distinct (fontTypes d) \<and> distinct (fontLayerIds d)
       \<and> set (fontTypes d) = (\<Union>x \<in> {x \<in> set xs. fontPostScriptName x = fontPostScriptName d}. set (fontTypes x))
       \<and> set (fontLayerIds d) = (\<Union>x \<in> {x \<in> set xs. fontPostScriptName x = fontPostScriptName d}. set (fontLayerIds x))"
proof -
  from assms obtain k where d: "d = mergedFont xs k"
    unfolding keepUniqueFontDescriptors_eq by auto
  show ?thesis unfolding d
    by (auto simp: mergedFont_def fontGroup_def set_uniq distinct_uniq)
qed


section \<open>Running programs: basic facts\<close>

lemma drive_bind:
  "drive (bind p f) w =
     (case drive p w of (Returned a, w') \<Rightarrow> drive (f a) w' | (Stopped s, w') \<Rightarrow> (Stopped s, w'))"
  by (induction p arbitrary: w) (auto split: prod.splits outcome.splits)

lemma drive_tryCatch:
  "drive (tryCatch p h) w =
     (case drive p w of
        (Stopped (Threw e), w') \<Rightarrow> drive (h e) w'
      | (r, w') \<Rightarrow> (r, w'))"
  by (induction p arbitrary: w) (auto split: prod.splits outcome.splits stop.splits)

lemma drive_modify: "drive (modify f) w = (Returned (), f w)"
  by (simp add: modify_def)

lemma drive_request:
  "drive (request ev reply) w =
     (case reply (trace w @ [ev]) of
        Inl e \<Rightarrow> (Stopped (Threw e), w\<lparr>trace := trace w @ [ev]\<rparr>)
      | Inr a \<Rightarrow> (Returned a, w\<lparr>trace := trace w @ [ev]\<rparr>))"
  by (simp add: request_def split: sum.splits)

lemma drive_awaitPromise:
  "drive (awaitPromise sel) w =
     (case sel w of
        Some Pending \<Rightarrow> (Stopped Blocked, w)
      | Some (RejectedWith e) \<Rightarrow> (Stopped (Threw e), w)
      | _ \<Rightarrow> (Returned (), w))"
  by (simp add: awaitPromise_def settled_def split: option.splits promise.splits)

lemma drive_throwIfCancelled:
  "drive (throwIfCancelled tok) w =
     (if isCancelled tok w then (Stopped (Threw OperationCancelled), w) else (Returned (), w))"
  by (simp add: throwIfCancelled_def)

lemma drive_settle:
  "drive (settle p) w =
     (case drive p w of
        (Returned a, w') \<Rightarrow> (Returned (Inr a), w')
      | (Stopped (Threw e), w') \<Rightarrow> (Returned (Inl e), w')
      | (Stopped s, w') \<Rightarrow> (Stopped s, w'))"
  by (simp add: settle_def drive_tryCatch drive_bind split: prod.splits outcome.splits stop.splits)

lemma drive_sequence_Cons:
  "drive (sequence (x # xs) f) w =
     (case drive (f x) w of
        (Returned y, w') \<Rightarrow>
          (case drive (sequence xs f) w' of
             (Returned ys, w'') \<Rightarrow> (Returned (y # ys), w'')
           | (Stopped s, w'') \<Rightarrow> (Stopped s, w''))
      | (Stopped s, w') \<Rightarrow> (Stopped s, w'))"
  by (simp add: drive_bind split: prod.splits outcome.splits)

section \<open>Rules for \<open>pres\<close> and \<open>total\<close>\<close>

lemma stable_refl: "stable R \<Longrightarrow> R w w"
  by (simp add: stable_def)

lemma stable_trans: "stable R \<Longrightarrow> R a b \<Longrightarrow> R b c \<Longrightarrow> R a c"
  unfolding stable_def by blast

lemma presI: "(\<And>w. presAt R w p) \<Longrightarrow> pres R p"
  by (simp add: pres_def)

lemma presD: "pres R p \<Longrightarrow> drive p w = (r, w') \<Longrightarrow> R w w'"
  by (simp add: pres_def presAt_def)

lemma presAt_pres: "pres R p \<Longrightarrow> presAt R w p"
  by (simp add: pres_def)

lemma presAt_Done: "stable R \<Longrightarrow> presAt R w (Done a)"
  by (simp add: presAt_def stable_refl)

lemma presAt_Fail: "stable R \<Longrightarrow> presAt R w (Fail e)"
  by (simp add: presAt_def stable_refl)

lemma presAt_Diverge: "stable R \<Longrightarrow> presAt R w Diverge"
  by (simp add: presAt_def stable_refl)

lemma presAt_Rd: "presAt R w (k w) \<Longrightarrow> presAt R w (Rd k)"
  by (simp add: presAt_def)

lemma presAt_Wr: "stable R \<Longrightarrow> R w w1 \<Longrightarrow> pres R p \<Longrightarrow> presAt R w (Wr w1 p)"
  unfolding presAt_def pres_def by (auto intro: stable_trans)

lemma pres_Done: "stable R \<Longrightarrow> pres R (Done a)"
  by (simp add: pres_def presAt_Done)

lemma pres_Fail: "stable R \<Longrightarrow> pres R (Fail e)"
  by (simp add: pres_def presAt_Fail)

lemma pres_Diverge: "stable R \<Longrightarrow> pres R Diverge"
  by (simp add: pres_def presAt_Diverge)

lemma pres_Pause: "stable R \<Longrightarrow> pres R p \<Longrightarrow> pres R (Pause g p)"
  unfolding pres_def presAt_def by (auto simp: stable_refl split: if_splits)

lemma presAt_bind:
  assumes "stable R" "presAt R w p" "\<And>a. pres R (f a)"
  shows "presAt R w (bind p f)"
  unfolding presAt_def
proof (intro allI impI)
  fix r w'
  assume d: "drive (bind p f) w = (r, w')"
  obtain r1 w1 where p: "drive p w = (r1, w1)" by (cases "drive p w")
  then have R1: "R w w1" using assms(2) by (simp add: presAt_def)
  show "R w w'"
  proof (cases r1)
    case (Returned a)
    then have "drive (f a) w1 = (r, w')" using d p by (simp add: drive_bind)
    then have "R w1 w'" using assms(3) presD by blast
    then show ?thesis using R1 assms(1) by (blast intro: stable_trans)
  next
    case (Stopped s)
    then show ?thesis using d p R1 by (simp add: drive_bind)
  qed
qed

lemma pres_bind: "stable R \<Longrightarrow> pres R p \<Longrightarrow> (\<And>a. pres R (f a)) \<Longrightarrow> pres R (bind p f)"
  by (simp add: pres_def presAt_bind)

lemma pres_tryCatch:
  assumes "stable R" "pres R p" "\<And>e. pres R (h e)"
  shows "pres R (tryCatch p h)"
proof (rule presI, unfold presAt_def, intro allI impI)
  fix w r w'
  assume d: "drive (tryCatch p h) w = (r, w')"
  obtain r1 w1 where p: "drive p w = (r1, w1)" by (cases "drive p w")
  have R1: "R w w1" using assms(2) p by (rule presD)
  show "R w w'"
  proof (cases "\<exists>e. r1 = Stopped (Threw e)")
    case True
    then obtain e where "r1 = Stopped (Threw e)" by blast
    then have "drive (h e) w1 = (r, w')" using d p by (simp add: drive_tryCatch)
    then have "R w1 w'" using assms(3) presD by blast
    then show ?thesis using R1 assms(1) by (blast intro: stable_trans)
  next
    case False
    then have "(r, w') = (r1, w1)"
      using d p by (auto simp: drive_tryCatch split: outcome.splits stop.splits)
    then show ?thesis using R1 by simp
  qed
qed

lemma pres_modify: "stable R \<Longrightarrow> (\<And>w. R w (f w)) \<Longrightarrow> pres R (modify f)"
  by (simp add: pres_def presAt_def drive_modify)

lemma pres_request:
  "stable R \<Longrightarrow> (\<And>w. R w (w\<lparr>trace := trace w @ [ev]\<rparr>)) \<Longrightarrow> pres R (request ev reply)"
  by (auto simp: pres_def presAt_def drive_request split: sum.splits)

lemma pres_awaitPromise: "stable R \<Longrightarrow> pres R (awaitPromise sel)"
  by (auto simp: pres_def presAt_def drive_awaitPromise stable_refl split: option.splits promise.splits)

lemma pres_throwIfCancelled: "stable R \<Longrightarrow> pres R (throwIfCancelled tok)"
  by (auto simp: pres_def presAt_def drive_throwIfCancelled stable_refl split: if_splits)

lemma pres_settle: "stable R \<Longrightarrow> pres R p \<Longrightarrow> pres R (settle p)"
  unfolding settle_def by (intro pres_tryCatch pres_bind pres_Done) 

lemma pres_sequence: "stable R \<Longrightarrow> (\<And>x. x \<in> set xs \<Longrightarrow> pres R (f x)) \<Longrightarrow> pres R (sequence xs f)"
proof (induction xs)
  case Nil
  then show ?case by (simp add: pres_Done)
next
  case (Cons x xs)
  show ?case
    unfolding sequence.simps
    by (intro pres_bind Cons.prems(1) pres_Done Cons.IH) (simp_all add: Cons.prems)
qed

lemma closedUnder_stable: "closedUnder R \<Longrightarrow> stable R"
  by (simp add: closedUnder_def)

lemma closedUnder_event: "closedUnder R \<Longrightarrow> \<not> isFinalize e \<Longrightarrow> R w (w\<lparr>trace := trace w @ [e]\<rparr>)"
  by (simp add: closedUnder_def)

subsection \<open>Rules for \<open>safe\<close>\<close>

lemma safeAt_drive:
  assumes st: "stable R"
  shows "safeAt R p w \<Longrightarrow> drive p w = (r, w') \<Longrightarrow> R w w' \<and> r \<noteq> Stopped OutOfFuel"
proof (induction p arbitrary: w)
  case (Done a)
  then show ?case using st by (auto simp: stable_refl)
next
  case (Fail e)
  then show ?case using st by (auto simp: stable_refl)
next
  case Diverge
  then show ?case by simp
next
  case (Rd k)
  have "k w \<in> range k" by simp
  moreover have "safeAt R (k w) w" using Rd.prems(1) by simp
  moreover have "drive (k w) w = (r, w')" using Rd.prems(2) by simp
  ultimately show ?case by (rule Rd.IH)
next
  case (Wr w1 p)
  have s1: "safeAt R p w1" and R1: "R w w1" using Wr.prems(1) by simp_all
  have d1: "drive p w1 = (r, w')" using Wr.prems(2) by simp
  have "R w1 w' \<and> r \<noteq> Stopped OutOfFuel" using s1 d1 by (rule Wr.IH)
  then show ?case using stable_trans[OF st R1] by blast
next
  case (Pause g p)
  show ?case
  proof (cases "g w")
    case True
    have "safeAt R p w" using Pause.prems(1) by simp
    moreover have "drive p w = (r, w')" using Pause.prems(2) True by simp
    ultimately show ?thesis by (rule Pause.IH)
  next
    case False
    then show ?thesis using Pause.prems(2) st by (auto simp: stable_refl)
  qed
qed

lemma safe_pres: "stable R \<Longrightarrow> safe R p \<Longrightarrow> pres R p"
  unfolding pres_def presAt_def safe_def using safeAt_drive by blast

lemma safe_total: "safe (\<lambda>_ _. True) p \<Longrightarrow> total p"
proof -
  assume s: "safe (\<lambda>_ _. True) p"
  have st: "stable (\<lambda>_ _. True)" by (simp add: stable_def)
  show "total p"
    unfolding total_def
  proof
    fix w
    obtain r w' where d: "drive p w = (r, w')" by (cases "drive p w")
    have "safeAt (\<lambda>_ _. True) p w" using s by (simp add: safe_def)
    then have "r \<noteq> Stopped OutOfFuel" using safeAt_drive[OF st _ d] by blast
    then show "fst (drive p w) \<noteq> Stopped OutOfFuel" using d by simp
  qed
qed

lemma safe_mono: "(\<And>w w'. R w w' \<Longrightarrow> S w w') \<Longrightarrow> safeAt R p w \<Longrightarrow> safeAt S p w"
  by (induction p arbitrary: w) auto

lemma safeD: "safe R p \<Longrightarrow> safeAt R p w"
  by (simp add: safe_def)

lemma safeI: "(\<And>w. safeAt R p w) \<Longrightarrow> safe R p"
  by (simp add: safe_def)

lemma safeAt_bind: "safeAt R p w \<Longrightarrow> (\<And>a. safe R (f a)) \<Longrightarrow> safeAt R (bind p f) w"
  by (induction p arbitrary: w) (auto simp: safe_def)

lemma safe_bind: "safe R p \<Longrightarrow> (\<And>a. safe R (f a)) \<Longrightarrow> safe R (bind p f)"
  by (rule safeI) (simp add: safeAt_bind safeD)

lemma safeAt_tryCatch: "safeAt R p w \<Longrightarrow> (\<And>e. safe R (h e)) \<Longrightarrow> safeAt R (tryCatch p h) w"
  by (induction p arbitrary: w) (auto simp: safe_def)

lemma safe_tryCatch: "safe R p \<Longrightarrow> (\<And>e. safe R (h e)) \<Longrightarrow> safe R (tryCatch p h)"
  by (rule safeI) (simp add: safeAt_tryCatch safeD)

lemma safe_Done: "safe R (Done a)"
  by (simp add: safe_def)

lemma safe_Fail: "safe R (Fail e)"
  by (simp add: safe_def)

lemma safe_Pause: "safe R p \<Longrightarrow> safe R (Pause g p)"
  by (simp add: safe_def)

lemma safe_Pause_iff: "safe R (Pause g p) = safe R p"
  by (simp add: safe_def)

lemma safe_Rd: "(\<And>w. safeAt R (k w) w) \<Longrightarrow> safe R (Rd k)"
  by (simp add: safe_def)

lemma safe_modify: "(\<And>w. R w (f w)) \<Longrightarrow> safe R (modify f)"
  by (simp add: safe_def modify_def)

lemma safe_request: "(\<And>w. R w (w\<lparr>trace := trace w @ [ev]\<rparr>)) \<Longrightarrow> safe R (request ev reply)"
  by (simp add: safe_def request_def split: sum.splits)

lemma safe_awaitPromise: "safe R (awaitPromise sel)"
  by (simp add: safe_def awaitPromise_def split: option.splits promise.splits)

lemma safe_throwIfCancelled: "safe R (throwIfCancelled tok)"
  by (simp add: safe_def throwIfCancelled_def)

lemma safe_settle: "safe R p \<Longrightarrow> safe R (settle p)"
  unfolding settle_def by (intro safe_tryCatch safe_bind safe_Done)

lemma safe_sequence: "(\<And>x. x \<in> set xs \<Longrightarrow> safe R (f x)) \<Longrightarrow> safe R (sequence xs f)"
proof (induction xs)
  case Nil
  then show ?case by (simp add: safe_Done)
next
  case (Cons x xs)
  show ?case
    unfolding sequence.simps
    by (intro safe_bind safe_Done Cons.IH) (simp_all add: Cons.prems)
qed

text \<open>The interleaving of two safe branches is safe.\<close>

lemma safeAt_runRight:
  assumes left: "safe R left"
    and goLeft: "\<And>q'. safe R q' \<Longrightarrow> safe R (goLeft q')"
  shows "safeAt R q w \<Longrightarrow> safeAt R (runRight q first g left goLeft) w"
proof (induction q arbitrary: w)
  case (Done b)
  have "safe R (bind left (\<lambda>_. Done ()))" by (intro safe_bind left safe_Done)
  then show ?case by (simp only: runRight.simps runLeft.simps) (rule safeD)
next
  case (Fail e)
  have "safe R (bind (settle left) (\<lambda>_. Fail e))"
    by (intro safe_bind safe_settle left safe_Fail)
  then show ?case by (simp only: runRight.simps runLeft.simps) (rule safeD)
next
  case Diverge
  then show ?case by simp
next
  case (Rd k)
  have "k w \<in> range k" by simp
  moreover have "safeAt R (k w) w" using Rd.prems by simp
  ultimately have "safeAt R (runRight (k w) first g left goLeft) w" by (rule Rd.IH)
  then show ?case by simp
next
  case (Wr w1 q)
  have "safeAt R q w1" and "R w w1" using Wr.prems by simp_all
  then show ?case using Wr.IH by simp
next
  case (Pause h q)
  have q: "\<And>w'. safeAt R q w'" using Pause.prems by simp
  then have "safe R (Pause h q)" by (simp add: safe_def)
  then have "safe R (goLeft (Pause h q))" by (rule goLeft)
  then have l: "\<And>w'. safeAt R (goLeft (Pause h q)) w'" by (simp add: safeD)
  have r: "\<And>w'. safeAt R (runRight q first g left goLeft) w'" using q by (rule Pause.IH)
  show ?case by (simp add: l r)
qed

lemma safeAt_runLeft:
  fixes q :: "'b prog"
  shows "safeAt R p w \<Longrightarrow> safe R q \<Longrightarrow> safeAt R (runLeft p first q) w"
proof (induction p arbitrary: w q)
  case (Done a)
  have "safe R (bind q (\<lambda>_. Done ()))" by (intro safe_bind Done.prems safe_Done)
  then show ?case by (simp only: runRight.simps runLeft.simps) (rule safeD)
next
  case (Fail e)
  have "safe R (bind (settle q) (\<lambda>_. Fail e))"
    by (intro safe_bind safe_settle Fail.prems safe_Fail)
  then show ?case by (simp only: runRight.simps runLeft.simps) (rule safeD)
next
  case Diverge
  then show ?case by simp
next
  case (Rd k)
  have "k w \<in> range k" by simp
  moreover have "safeAt R (k w) w" using Rd.prems by simp
  ultimately have "safeAt R (runLeft (k w) first q) w" using Rd.prems(2) by (rule Rd.IH)
  then show ?case by simp
next
  case (Wr w1 p)
  have "safeAt R p w1" and "R w w1" using Wr.prems by simp_all
  then show ?case using Wr.IH Wr.prems(2) by simp
next
  case (Pause g p)
  have p: "\<And>w'. safeAt R p w'" using Pause.prems(1) by simp
  have left: "safe R (Pause g p)" using p by (simp add: safe_def)
  have goLeft: "safe R (runLeft p first q')" if "safe R q'" for q' :: "'b prog"
    by (rule safeI) (rule Pause.IH[OF p that])
  have "safeAt R (runRight q first g (Pause g p) (runLeft p first)) w"
    using left goLeft safeD[OF Pause.prems(2)] by (rule safeAt_runRight)
  then show ?case by simp
qed

lemma safe_promiseAll: "safe R p \<Longrightarrow> safe R q \<Longrightarrow> safe R (promiseAll first p q)"
  unfolding promiseAll_def by (rule safeI) (simp add: safeAt_runLeft safeD)


section \<open>Steps outside registration and finalization preserve every closed relation\<close>

lemma closedUnder_promise_new:
  "closedUnder R \<Longrightarrow> loadingArtboardPromises w a = None \<Longrightarrow>
     R w (setLoadingArtboardPromise a Pending w)"
  by (simp add: closedUnder_def)

lemma closedUnder_promise_settle:
  "closedUnder R \<Longrightarrow> loadingArtboardPromises w a = Some Pending \<Longrightarrow>
     R w (setLoadingArtboardPromise a p w)"
  by (simp add: closedUnder_def)

lemma closedUnder_octopus: "closedUnder R \<Longrightarrow> R w (setOctopus a (Some c) w)"
  by (simp add: closedUnder_def)

lemma closedUnder_designPromise: "closedUnder R \<Longrightarrow> R w (w\<lparr>designPromise := p\<rparr>)"
  by (simp add: closedUnder_def)

lemma closedUnder_fonts: "closedUnder R \<Longrightarrow> R w (w\<lparr>loadedFonts := insert n (loadedFonts w)\<rparr>)"
  by (simp add: closedUnder_def)

lemma pres_request_cu: "closedUnder R \<Longrightarrow> \<not> isFinalize ev \<Longrightarrow> pres R (request ev reply)"
  by (rule pres_request) (simp_all add: closedUnder_stable closedUnder_event)

lemma pres_createDesign: "closedUnder R \<Longrightarrow> pres R (createDesign env)"
  unfolding createDesign_def
  by (rule pres_bind) (simp_all add: pres_request_cu pres_Done pres_Fail closedUnder_stable)

lemma pres_ensureDesign:
  assumes cu: "closedUnder R"
  shows "pres R (ensureDesign env)"
proof (rule presI)
  fix w
  note st = closedUnder_stable[OF cu]
  show "presAt R w (ensureDesign env)"
    unfolding ensureDesign_def
  proof (rule presAt_Rd, cases "designPromise w")
    case None
    have "pres R (tryCatch
               (bind (createDesign env)
                  (\<lambda>_. modify (\<lambda>w. w\<lparr>designPromise := Some Fulfilled\<rparr>)))
               (\<lambda>e. bind (modify (\<lambda>w. w\<lparr>designPromise := Some (RejectedWith e)\<rparr>))
                  (\<lambda>_. Fail e)))"
      by (intro pres_tryCatch pres_bind pres_modify pres_Fail st pres_createDesign cu)
         (rule closedUnder_designPromise[OF cu])+
    then show "presAt R w (case designPromise w of
         None \<Rightarrow>
           Wr (w\<lparr>designPromise := Some Pending\<rparr>)
             (tryCatch
               (bind (createDesign env)
                  (\<lambda>_. modify (\<lambda>w. w\<lparr>designPromise := Some Fulfilled\<rparr>)))
               (\<lambda>e. bind (modify (\<lambda>w. w\<lparr>designPromise := Some (RejectedWith e)\<rparr>))
                  (\<lambda>_. Fail e)))
       | Some _ \<Rightarrow> awaitPromise designPromise)"
      using None by (simp add: presAt_Wr st closedUnder_designPromise[OF cu])
  next
    case (Some a)
    then show "presAt R w (case designPromise w of
         None \<Rightarrow>
           Wr (w\<lparr>designPromise := Some Pending\<rparr>)
             (tryCatch
               (bind (createDesign env)
                  (\<lambda>_. modify (\<lambda>w. w\<lparr>designPromise := Some Fulfilled\<rparr>)))
               (\<lambda>e. bind (modify (\<lambda>w. w\<lparr>designPromise := Some (RejectedWith e)\<rparr>))
                  (\<lambda>_. Fail e)))
       | Some _ \<Rightarrow> awaitPromise designPromise)"
      by (simp add: presAt_pres pres_awaitPromise st)
  qed
qed

lemma pres_execCommand:
  "closedUnder R \<Longrightarrow> \<not> isFinalize (ExecCommand cmd) \<Longrightarrow> pres R (execCommand env cmd)"
  unfolding execCommand_def
  by (rule pres_bind) (simp_all add: pres_ensureDesign pres_request_cu closedUnder_stable)


lemma presAt_Rd_iff: "presAt R w (Rd k) = presAt R w (k w)"
  by (simp add: presAt_def)

lemmas pres_rules = presAt_Rd_iff presAt_Wr presAt_pres pres_bind pres_tryCatch pres_modify
  pres_Done pres_Fail pres_Diverge pres_awaitPromise pres_throwIfCancelled
  pres_request_cu pres_execCommand closedUnder_stable closedUnder_octopus
  closedUnder_fonts closedUnder_designPromise

lemma pres_loadArtboardContent_events:
  assumes st: "stable R" and ev: "\<And>w e. \<not> isFinalize e \<Longrightarrow> R w (w\<lparr>trace := trace w @ [e]\<rparr>)"
  shows "pres R (loadArtboardContent env a)"
proof -
  have rq: "pres R (request e reply)" if "\<not> isFinalize e" for e and reply :: "event list \<Rightarrow> error + 'x"
    using st ev[OF that] by (rule pres_request)
  show ?thesis
    unfolding loadArtboardContent_def
    by (rule presI)
       (simp add: presAt_Rd_iff presAt_pres pres_bind pres_Done pres_Fail st rq)
qed

lemma pres_loadArtboardContent: "closedUnder R \<Longrightarrow> pres R (loadArtboardContent env a)"
  by (rule pres_loadArtboardContent_events) (simp_all add: closedUnder_stable closedUnder_event)

lemma loadArtboardContent_registry:
  assumes "drive (loadArtboardContent env a) w = (r, w')"
  shows "loadingArtboardPromises w' = loadingArtboardPromises w"
proof -
  have "pres (\<lambda>w w'. loadingArtboardPromises w' = loadingArtboardPromises w)
      (loadArtboardContent env a)"
    by (rule pres_loadArtboardContent_events) (simp_all add: stable_def)
  then show ?thesis using assms by (rule presD)
qed

lemma drive_loadArtboard_nothing:
  assumes "getArtboardById w a = None \<or> loadingArtboardPromises w a \<noteq> None \<or> isLoaded w a"
  shows "snd (drive (loadArtboard env a) w) = w"
  using assms
  by (auto simp: loadArtboard_def drive_awaitPromise split: option.splits promise.splits)

lemma drive_loadArtboard_read:
  assumes "getArtboardById w a \<noteq> None" "loadingArtboardPromises w a = None" "\<not> isLoaded w a"
    and c: "drive (loadArtboardContent env a) (setLoadingArtboardPromise a Pending w) = (rc, w1)"
  shows "drive (loadArtboard env a) w =
     (case rc of
        Returned content \<Rightarrow>
          (Returned (), setLoadingArtboardPromise a Fulfilled (setOctopus a (Some content) w1))
      | Stopped (Threw e) \<Rightarrow> (Stopped (Threw e), setLoadingArtboardPromise a (RejectedWith e) w1)
      | Stopped s \<Rightarrow> (Stopped s, w1))"
  using assms
  by (auto simp: loadArtboard_def drive_tryCatch drive_bind drive_modify
      split: option.splits outcome.splits stop.splits)

lemma loadingArtboardPromises_setOctopus [simp]:
  "loadingArtboardPromises (setOctopus a c w) = loadingArtboardPromises w"
  by (simp add: setOctopus_def split: option.splits)

lemma pres_loadArtboard:
  assumes cu: "closedUnder R"
  shows "pres R (loadArtboard env a)"
proof (rule presI, unfold presAt_def, intro allI impI)
  fix w r w'
  note st = closedUnder_stable[OF cu]
  assume d: "drive (loadArtboard env a) w = (r, w')"
  show "R w w'"
  proof (cases "getArtboardById w a = None \<or> loadingArtboardPromises w a \<noteq> None \<or> isLoaded w a")
    case True
    then have "w' = w" using drive_loadArtboard_nothing[OF True, of env] d by simp
    then show ?thesis using st by (simp add: stable_refl)
  next
    case False
    let ?w0 = "setLoadingArtboardPromise a Pending w"
    obtain rc w1 where c: "drive (loadArtboardContent env a) ?w0 = (rc, w1)"
      by (cases "drive (loadArtboardContent env a) ?w0")
    have R0: "R w ?w0" using cu False by (simp add: closedUnder_promise_new)
    have R1: "R ?w0 w1" using presD[OF pres_loadArtboardContent[OF cu] c] .
    have R01: "R w w1" using stable_trans[OF st R0 R1] .
    have p1: "loadingArtboardPromises w1 a = Some Pending"
      using loadArtboardContent_registry[OF c] by (simp add: setLoadingArtboardPromise_def)
    have settle: "R w (setLoadingArtboardPromise a p w1)" for p
      using stable_trans[OF st R01 closedUnder_promise_settle[OF cu p1]] .
    have full: "R w (setLoadingArtboardPromise a Fulfilled (setOctopus a (Some content) w1))"
      for content
    proof -
      have "R w1 (setOctopus a (Some content) w1)" using cu by (rule closedUnder_octopus)
      moreover have "R (setOctopus a (Some content) w1)
          (setLoadingArtboardPromise a Fulfilled (setOctopus a (Some content) w1))"
        using cu by (rule closedUnder_promise_settle) (simp add: p1)
      ultimately show ?thesis using R01 st by (blast intro: stable_trans)
    qed
    have eq: "drive (loadArtboard env a) w =
     (case rc of
        Returned content \<Rightarrow>
          (Returned (), setLoadingArtboardPromise a Fulfilled (setOctopus a (Some content) w1))
      | Stopped (Threw e) \<Rightarrow> (Stopped (Threw e), setLoadingArtboardPromise a (RejectedWith e) w1)
      | Stopped s \<Rightarrow> (Stopped s, w1))"
      using False c by (intro drive_loadArtboard_read) simp_all
    show ?thesis
      using d R01 settle full unfolding eq
      by (auto split: outcome.splits stop.splits)
  qed
qed

lemma pres_artboardLoad: "closedUnder R \<Longrightarrow> pres R (artboardLoad env a)"
  unfolding artboardLoad_def
  by (rule presI) (simp add: pres_rules pres_loadArtboard)

lemma pres_Rd_Done: "stable R \<Longrightarrow> pres R (Rd (\<lambda>w. Done (g w)))"
  by (rule presI) (simp add: presAt_Rd_iff presAt_Done)

lemma pres_getBitmapAssets: "closedUnder R \<Longrightarrow> pres R (getBitmapAssets env a)"
  unfolding getBitmapAssets_def
  by (rule pres_bind) (simp_all add: pres_rules pres_artboardLoad pres_Rd_Done)

lemma pres_getFonts: "closedUnder R \<Longrightarrow> pres R (getFonts env a)"
  unfolding getFonts_def
  by (rule pres_bind) (simp_all add: pres_rules pres_artboardLoad pres_Rd_Done)

lemma pres_downloadBitmapAsset: "closedUnder R \<Longrightarrow> pres R (downloadBitmapAsset env d)"
  unfolding downloadBitmapAsset_def
  by (rule presI) (simp add: pres_rules split: prod.splits)

lemma pres_downloadBitmapAssets: "closedUnder R \<Longrightarrow> pres R (downloadBitmapAssets env ds)"
  unfolding downloadBitmapAssets_def
  by (rule pres_bind) (simp_all add: pres_rules pres_sequence pres_downloadBitmapAsset)

lemma pres_loadFont: "closedUnder R \<Longrightarrow> pres R (loadFont env n f face)"
  unfolding loadFont_def
  by (rule presI) (simp add: pres_rules)

lemma pres_loadFontsToRendering: "closedUnder R \<Longrightarrow> pres R (loadFontsToRendering env tok fonts)"
  unfolding loadFontsToRendering_def
  by (rule presI) (simp add: pres_rules pres_sequence pres_loadFont split: option.splits prod.splits)

subsection \<open>The two branches under \<^verbatim>\<open>Promise.all\<close>\<close>

lemma safe_request_cu: "closedUnder R \<Longrightarrow> \<not> isFinalize ev \<Longrightarrow> safe R (request ev reply)"
  by (rule safe_request) (simp add: closedUnder_event)

lemma safe_createDesign: "closedUnder R \<Longrightarrow> safe R (createDesign env)"
  unfolding createDesign_def
  by (rule safe_bind) (simp_all add: safe_request_cu safe_Done safe_Fail)

lemma safe_ensureDesign:
  assumes cu: "closedUnder R"
  shows "safe R (ensureDesign env)"
proof -
  have t: "safe R (tryCatch
               (bind (createDesign env)
                  (\<lambda>_. modify (\<lambda>w. w\<lparr>designPromise := Some Fulfilled\<rparr>)))
               (\<lambda>e. bind (modify (\<lambda>w. w\<lparr>designPromise := Some (RejectedWith e)\<rparr>))
                  (\<lambda>_. Fail e)))"
    by (intro safe_tryCatch safe_bind safe_modify safe_Fail safe_createDesign cu)
       (rule closedUnder_designPromise[OF cu])+
  show ?thesis
    unfolding ensureDesign_def
    by (rule safe_Rd)
       (simp add: safeD[OF t] safeD[OF safe_awaitPromise] closedUnder_designPromise[OF cu]
          split: option.splits)
qed

lemma safe_execCommand:
  "closedUnder R \<Longrightarrow> \<not> isFinalize (ExecCommand cmd) \<Longrightarrow> safe R (execCommand env cmd)"
  unfolding execCommand_def
  by (rule safe_bind) (simp_all add: safe_ensureDesign safe_request_cu)

lemma safe_downloadBitmapAsset:
  assumes cu: "closedUnder R"
  shows "safe R (downloadBitmapAsset env d)"
proof -
  have t: "safe R (bind (request (ResolveBitmapAsset (name d))
                    (\<lambda>h. resolveBitmapAssetReply env h (name d)))
              (\<lambda>(available, filename).
                 if available then Done filename
                 else bind (request (GetBitmapAssetStream (name d))
                              (\<lambda>h. getBitmapAssetStreamReply env h (name d)))
                        (\<lambda>_. request (SaveBitmapAssetStream (name d))
                                (\<lambda>h. saveBitmapAssetStreamReply env h (name d)))))"
    by (rule safe_bind) (auto intro!: safe_bind safe_request_cu[OF cu] safe_Done)
  show ?thesis
    unfolding downloadBitmapAsset_def
    by (rule safe_Rd) (simp add: safeD[OF t])
qed

lemma safe_downloadBitmapAssets: "closedUnder R \<Longrightarrow> safe R (downloadBitmapAssets env ds)"
  unfolding downloadBitmapAssets_def
  by (rule safe_bind) (simp_all add: safe_sequence safe_downloadBitmapAsset safe_Done)

lemma safe_loadFont:
  assumes cu: "closedUnder R"
  shows "safe R (loadFont env n f face)"
proof -
  have t: "safe R (bind (execCommand env (LoadFontCmd n f (truthy face))) (\<lambda>_. Done ()))"
    by (rule safe_bind) (simp_all add: safe_execCommand[OF cu] safe_Done)
  show ?thesis
    unfolding loadFont_def
    by (rule safe_Rd) (simp add: safeD[OF t] closedUnder_fonts[OF cu])
qed

lemma safe_loadFontsToRendering:
  assumes cu: "closedUnder R"
  shows "safe R (loadFontsToRendering env tok fonts)"
proof -
  have one: "safe R (bind (request (ResolveFontPath (fontPostScriptName font))
                      (\<lambda>h. resolveFontPathReply env h (fontPostScriptName font)))
                (\<lambda>fontMatch. case fontMatch of
                     Some (fontFilename, fontPostscriptName) \<Rightarrow>
                       bind (loadFont env (fontPostScriptName font) fontFilename (Some fontPostscriptName))
                         (\<lambda>_. throwIfCancelled tok)
                   | None \<Rightarrow> Done ()))" for font
    by (rule safe_bind)
       (auto intro!: safe_bind safe_request_cu[OF cu] safe_loadFont[OF cu] safe_throwIfCancelled
          safe_Done split: option.splits)
  have t: "safe R (bind (sequence fonts (\<lambda>font.
              bind (request (ResolveFontPath (fontPostScriptName font))
                      (\<lambda>h. resolveFontPathReply env h (fontPostScriptName font)))
                (\<lambda>fontMatch. case fontMatch of
                     Some (fontFilename, fontPostscriptName) \<Rightarrow>
                       bind (loadFont env (fontPostScriptName font) fontFilename (Some fontPostscriptName))
                         (\<lambda>_. throwIfCancelled tok)
                   | None \<Rightarrow> Done ())))
            (\<lambda>_. Done ()))"
    by (intro safe_bind safe_sequence one safe_Done)
  show ?thesis
    unfolding loadFontsToRendering_def
    by (rule safe_Rd) (simp add: safeD[OF t])
qed

lemma pres_promiseAll_assets:
  "closedUnder R \<Longrightarrow>
     pres R (promiseAll first (downloadBitmapAssets env ds) (loadFontsToRendering env tok fonts))"
  by (intro safe_pres safe_promiseAll safe_downloadBitmapAssets safe_loadFontsToRendering
      closedUnder_stable)

lemma pres_loadAssetsToRendering: "closedUnder R \<Longrightarrow> pres R (loadAssetsToRendering env tok a)"
  unfolding loadAssetsToRendering_def
  by (simp add: pres_rules pres_getBitmapAssets pres_getFonts pres_promiseAll_assets)

section \<open>The rendering load preserves what its registration and finalization preserve\<close>

lemma pres_loadDependency:
  "stable R \<Longrightarrow> (\<And>b. pres R (self b)) \<Longrightarrow> pres R (loadDependency self c)"
  unfolding loadDependency_def
  by (rule presI) (simp add: presAt_Rd_iff presAt_pres pres_Fail split: option.splits)

lemma pres_checkReady: "stable R \<Longrightarrow> pres R (checkReady a)"
  unfolding checkReady_def
  by (rule presI) (simp add: presAt_Rd_iff presAt_pres pres_Fail pres_Done)

lemma pres_loadSteps:
  assumes cu: "closedUnder R"
    and reg: "\<And>a f s p. pres R (renderingDesignLoadArtboard env a f s p)"
    and fin: "\<And>a. pres R (markArtboardAsReady env a)"
    and self: "\<And>b. pres R (self b)"
  shows "pres R (loadSteps env self a artboard ps)"
  unfolding loadSteps_def
  by (simp add: pres_rules cu pres_artboardLoad pres_sequence pres_loadDependency self reg fin
      pres_checkReady pres_loadAssetsToRendering split: option.splits)

lemma pres_loadRenderingDesignArtboard:
  assumes cu: "closedUnder R"
    and reg: "\<And>a f s p. pres R (renderingDesignLoadArtboard env a f s p)"
    and fin: "\<And>a. pres R (markArtboardAsReady env a)"
  shows "pres R (loadRenderingDesignArtboard env n a ps)"
proof (induction n arbitrary: a)
  case 0
  show ?case by (simp add: pres_rules cu)
next
  case (Suc n)
  show ?case
    unfolding loadRenderingDesignArtboard.simps
    by (rule presI)
       (simp add: pres_rules cu pres_loadSteps[OF cu reg fin] Suc.IH split: option.splits)
qed

section \<open>Rules for \<open>triple\<close>\<close>

lemma tripleI:
  "(\<And>w r w'. P w \<Longrightarrow> drive p w = (r, w') \<Longrightarrow>
      (case r of Returned a \<Rightarrow> K a w' | Stopped s \<Rightarrow> W s w')) \<Longrightarrow> triple P p W K"
  by (simp add: triple_def)

lemma triple_Returned: "triple P p W K \<Longrightarrow> P w \<Longrightarrow> drive p w = (Returned a, w') \<Longrightarrow> K a w'"
  unfolding triple_def by fastforce

lemma triple_Stopped: "triple P p W K \<Longrightarrow> P w \<Longrightarrow> drive p w = (Stopped s, w') \<Longrightarrow> W s w'"
  unfolding triple_def by fastforce

lemma triple_Done: "(\<And>w. P w \<Longrightarrow> K a w) \<Longrightarrow> triple P (Done a) W K"
  by (simp add: triple_def)

lemma triple_Fail: "(\<And>w. P w \<Longrightarrow> W (Threw e) w) \<Longrightarrow> triple P (Fail e) W K"
  by (simp add: triple_def)

lemma triple_Diverge: "(\<And>w. P w \<Longrightarrow> W OutOfFuel w) \<Longrightarrow> triple P Diverge W K"
  by (simp add: triple_def)

lemma triple_bind:
  assumes "triple P p W M" "\<And>a. triple (M a) (f a) W K"
  shows "triple P (bind p f) W K"
proof (rule tripleI)
  fix w r w'
  assume P: "P w" and d: "drive (bind p f) w = (r, w')"
  obtain r1 w1 where p: "drive p w = (r1, w1)" by (cases "drive p w")
  show "case r of Returned a \<Rightarrow> K a w' | Stopped s \<Rightarrow> W s w'"
  proof (cases r1)
    case (Returned a)
    then have "M a w1" using assms(1) P p by (simp add: triple_Returned)
    moreover have "drive (f a) w1 = (r, w')" using d p Returned by (simp add: drive_bind)
    ultimately show ?thesis using assms(2)[of a] unfolding triple_def by blast
  next
    case (Stopped s)
    then have "W s w1" using assms(1) P p by (simp add: triple_Stopped)
    moreover have "(r, w') = (Stopped s, w1)" using d p Stopped by (simp add: drive_bind)
    ultimately show ?thesis by simp
  qed
qed

lemma triple_Rd: "(\<And>w0. P w0 \<Longrightarrow> triple (\<lambda>w. w = w0) (k w0) W K) \<Longrightarrow> triple P (Rd k) W K"
  unfolding triple_def by simp

lemma triple_Wr: "triple (\<lambda>w. w = w1) p W K \<Longrightarrow> triple P (Wr w1 p) W K"
  unfolding triple_def by simp

lemma triple_Pause:
  "triple P p W K \<Longrightarrow> (\<And>w. P w \<Longrightarrow> \<not> g w \<Longrightarrow> W Blocked w) \<Longrightarrow> triple P (Pause g p) W K"
  unfolding triple_def by (auto split: if_splits)

lemma triple_weaken:
  assumes "triple P' p W' K'" "\<And>w. P w \<Longrightarrow> P' w" "\<And>s w. W' s w \<Longrightarrow> W s w"
    "\<And>a w. K' a w \<Longrightarrow> K a w"
  shows "triple P p W K"
  using assms unfolding triple_def by (force split: outcome.splits)

lemma triple_pre: "triple P' p W K \<Longrightarrow> (\<And>w. P w \<Longrightarrow> P' w) \<Longrightarrow> triple P p W K"
  unfolding triple_def by blast

lemma triple_conj:
  "triple P p W1 K1 \<Longrightarrow> triple P p W2 K2 \<Longrightarrow>
   triple P p (\<lambda>s w. W1 s w \<and> W2 s w) (\<lambda>a w. K1 a w \<and> K2 a w)"
  unfolding triple_def by (force split: outcome.splits)

lemma triple_modify: "(\<And>w. P w \<Longrightarrow> K () (f w)) \<Longrightarrow> triple P (modify f) W K"
  by (simp add: triple_def drive_modify)

lemma triple_request:
  assumes "\<And>w a. P w \<Longrightarrow> reply (trace w @ [ev]) = Inr a \<Longrightarrow> K a (w\<lparr>trace := trace w @ [ev]\<rparr>)"
    and "\<And>w e. P w \<Longrightarrow> reply (trace w @ [ev]) = Inl e \<Longrightarrow> W (Threw e) (w\<lparr>trace := trace w @ [ev]\<rparr>)"
  shows "triple P (request ev reply) W K"
  using assms by (auto simp: triple_def drive_request split: sum.splits)

lemma triple_throwIfCancelled:
  assumes "\<And>w. P w \<Longrightarrow> isCancelled tok w \<Longrightarrow> W (Threw OperationCancelled) w"
    and "\<And>w. P w \<Longrightarrow> \<not> isCancelled tok w \<Longrightarrow> K () w"
  shows "triple P (throwIfCancelled tok) W K"
  using assms by (auto simp: triple_def drive_throwIfCancelled split: if_splits)

lemma triple_tryCatch:
  assumes "triple P p W' K" "\<And>e. triple (W' (Threw e)) (h e) W K"
    "\<And>w. W' OutOfFuel w \<Longrightarrow> W OutOfFuel w" "\<And>w. W' Blocked w \<Longrightarrow> W Blocked w"
  shows "triple P (tryCatch p h) W K"
proof (rule tripleI)
  fix w r w'
  assume P: "P w" and d: "drive (tryCatch p h) w = (r, w')"
  obtain r1 w1 where p: "drive p w = (r1, w1)" by (cases "drive p w")
  show "case r of Returned a \<Rightarrow> K a w' | Stopped s \<Rightarrow> W s w'"
  proof (cases r1)
    case (Returned a)
    then have "K a w1" using assms(1) P p by (simp add: triple_Returned)
    moreover have "(r, w') = (Returned a, w1)" using d p Returned by (simp add: drive_tryCatch)
    ultimately show ?thesis by simp
  next
    case (Stopped s)
    then have Ws: "W' s w1" using assms(1) P p by (simp add: triple_Stopped)
    show ?thesis
    proof (cases s)
      case (Threw e)
      then have "drive (h e) w1 = (r, w')" using d p Stopped by (simp add: drive_tryCatch)
      then show ?thesis using assms(2)[of e] Ws Threw unfolding triple_def by blast
    next
      case OutOfFuel
      then have "(r, w') = (Stopped OutOfFuel, w1)" using d p Stopped by (simp add: drive_tryCatch)
      then show ?thesis using Ws OutOfFuel assms(3) by simp
    next
      case Blocked
      then have "(r, w') = (Stopped Blocked, w1)" using d p Stopped by (simp add: drive_tryCatch)
      then show ?thesis using Ws Blocked assms(4) by simp
    qed
  qed
qed

lemma triple_pres:
  assumes "pres R p" "stable R"
  shows "triple (R w0) p (\<lambda>_. R w0) (\<lambda>_. R w0)"
proof (rule tripleI)
  fix w r w'
  assume "R w0 w" "drive p w = (r, w')"
  then have "R w0 w'" using assms presD stable_trans by blast
  then show "case r of Returned a \<Rightarrow> R w0 w' | Stopped s \<Rightarrow> R w0 w'"
    by (cases r) simp_all
qed

lemma triple_pres_eq:
  assumes "pres R p"
  shows "triple (\<lambda>w. w = w0) p (\<lambda>_. R w0) (\<lambda>_. R w0)"
proof (rule tripleI)
  fix w r w'
  assume "w = w0" "drive p w = (r, w')"
  then have "R w0 w'" using assms presD by blast
  then show "case r of Returned a \<Rightarrow> R w0 w' | Stopped s \<Rightarrow> R w0 w'"
    by (cases r) simp_all
qed

lemma pres_triple:
  assumes "\<And>w0. triple (\<lambda>w. w = w0) p (\<lambda>_. R w0) (\<lambda>_. R w0)"
  shows "pres R p"
proof (rule presI, unfold presAt_def, intro allI impI)
  fix w r w'
  assume "drive p w = (r, w')"
  then show "R w w'" using assms[of w] unfolding triple_def by (cases r) force+
qed

section \<open>The frame relations\<close>

lemma staticEq_refl: "staticEq w w"
  by (simp add: staticEq_def)

lemma staticEq_trans:
  assumes "staticEq a b" "staticEq b c"
  shows "staticEq a c"
proof -
  have ex: "\<forall>x. (artboardsById c x = None) = (artboardsById a x = None)"
    using assms by (simp add: staticEq_def)
  have ids: "componentId e' = componentId e \<and> pageId e' = pageId e"
    if h: "artboardsById a x = Some e" "artboardsById c x = Some e'" for x e e'
  proof -
    have "artboardsById b x \<noteq> None" using assms(1) h(1) by (simp add: staticEq_def)
    then obtain eb where eb: "artboardsById b x = Some eb" by blast
    have "componentId eb = componentId e \<and> pageId eb = pageId e"
      using assms(1) h(1) eb unfolding staticEq_def by blast
    moreover have "componentId e' = componentId eb \<and> pageId e' = pageId eb"
      using assms(2) h(2) eb unfolding staticEq_def by blast
    ultimately show ?thesis by simp
  qed
  have cfg: "localDesign c = localDesign a \<and> apiDesign c = apiDesign a
     \<and> renderingDesign c = renderingDesign a \<and> fontSource c = fontSource a
     \<and> artboardsByComponentId c = artboardsByComponentId a"
    using assms by (simp add: staticEq_def)
  show ?thesis unfolding staticEq_def using cfg ex ids by blast
qed

lemma stable_staticEq: "stable staticEq"
  unfolding stable_def using staticEq_refl staticEq_trans by blast

lemma staticEq_setOctopus: "staticEq w (setOctopus a c w)"
  by (auto simp: staticEq_def setOctopus_def split: option.splits)

lemma isLoaded_setOctopus: "isLoaded w b \<Longrightarrow> isLoaded (setOctopus a (Some c) w) b"
  by (auto simp: isLoaded_def setOctopus_def split: option.splits)

lemma grows_refl: "grows w w"
  by (simp add: grows_def staticEq_refl)

lemma grows_trans:
  assumes "grows a b" "grows b c"
  shows "grows a c"
proof -
  have st: "staticEq a c" using assms by (auto simp: grows_def intro: staticEq_trans)
  obtain e1 e2 where "trace b = trace a @ e1" "trace c = trace b @ e2"
    using assms by (auto simp: grows_def)
  then have tr: "\<exists>evs. trace c = trace a @ evs" by simp
  have ab: "\<exists>ra'. artboards c x = Some ra' \<and> pendingSymbolIds ra' = pendingSymbolIds ra
                   \<and> (ready ra \<longrightarrow> ready ra')" if h: "artboards a x = Some ra" for x ra
  proof -
    obtain rb where rb: "artboards b x = Some rb" "pendingSymbolIds rb = pendingSymbolIds ra"
        "ready ra \<longrightarrow> ready rb"
      using assms(1) h unfolding grows_def by blast
    obtain rc where "artboards c x = Some rc" "pendingSymbolIds rc = pendingSymbolIds rb"
        "ready rb \<longrightarrow> ready rc"
      using assms(2) rb(1) unfolding grows_def by blast
    then show ?thesis using rb by auto
  qed
  have ld: "\<forall>x. isLoaded a x \<longrightarrow> isLoaded c x" using assms by (simp add: grows_def)
  have pr: "\<forall>x. loadingArtboardPromises a x \<noteq> None \<longrightarrow> loadingArtboardPromises c x \<noteq> None"
    using assms by (simp add: grows_def)
  have ps: "\<forall>x p. loadingArtboardPromises a x = Some p \<longrightarrow> p \<noteq> Pending \<longrightarrow>
      loadingArtboardPromises c x = Some p"
    using assms by (simp add: grows_def)
  show ?thesis unfolding grows_def using st tr ab ld pr ps by blast
qed

lemma stable_grows: "stable grows"
  unfolding stable_def using grows_refl grows_trans by blast

lemma closedUnder_grows: "closedUnder grows"
  unfolding closedUnder_def
proof (intro conjI allI impI)
  show "stable grows" by (rule stable_grows)
  show "grows w (w\<lparr>trace := trace w @ [e]\<rparr>)" for w e
    by (simp add: grows_def staticEq_def isLoaded_def)
  show "grows w (setLoadingArtboardPromise a Pending w)"
    if "loadingArtboardPromises w a = None" for w a
    using that by (simp add: grows_def staticEq_def isLoaded_def setLoadingArtboardPromise_def)
  show "grows w (setLoadingArtboardPromise a p w)"
    if "loadingArtboardPromises w a = Some Pending" for w a p
    using that by (simp add: grows_def staticEq_def isLoaded_def setLoadingArtboardPromise_def)
  show "grows w (setOctopus a (Some c) w)" for w a c
    using staticEq_setOctopus[of w a "Some c"] isLoaded_setOctopus[of w _ a c]
    by (auto simp: grows_def setOctopus_def split: option.splits)
  show "grows w (w\<lparr>designPromise := p\<rparr>)" for w p
    by (simp add: grows_def staticEq_def isLoaded_def)
  show "grows w (w\<lparr>loadedFonts := insert n (loadedFonts w)\<rparr>)" for w n
    by (simp add: grows_def staticEq_def isLoaded_def)
qed

lemma quiet_refl: "quiet w w"
  by (simp add: quiet_def grows_refl)

lemma quiet_trans:
  assumes "quiet a b" "quiet b c"
  shows "quiet a c"
proof -
  obtain e1 e2 where "trace b = trace a @ e1" "\<forall>e \<in> set e1. \<not> isFinalize e"
      "trace c = trace b @ e2" "\<forall>e \<in> set e2. \<not> isFinalize e"
    using assms unfolding quiet_def by blast
  then have "trace c = trace a @ (e1 @ e2) \<and> (\<forall>e \<in> set (e1 @ e2). \<not> isFinalize e)" by auto
  then have "\<exists>evs. trace c = trace a @ evs \<and> (\<forall>e \<in> set evs. \<not> isFinalize e)" by blast
  then show ?thesis using assms grows_trans[of a b c] by (simp add: quiet_def)
qed

lemma stable_quiet: "stable quiet"
  unfolding stable_def using quiet_refl quiet_trans by blast

lemma closedUnder_quiet: "closedUnder quiet"
proof -
  note cg = closedUnder_grows[unfolded closedUnder_def]
  show ?thesis
    unfolding closedUnder_def
  proof (intro conjI allI impI)
    show "stable quiet" by (rule stable_quiet)
    show "quiet w (w\<lparr>trace := trace w @ [e]\<rparr>)" if "\<not> isFinalize e" for w e
      using that cg by (simp add: quiet_def)
    show "quiet w (setLoadingArtboardPromise a Pending w)"
      if "loadingArtboardPromises w a = None" for w a
      using cg that by (simp add: quiet_def) (simp add: setLoadingArtboardPromise_def)
    show "quiet w (setLoadingArtboardPromise a p w)"
      if "loadingArtboardPromises w a = Some Pending" for w a p
      using cg that by (simp add: quiet_def) (simp add: setLoadingArtboardPromise_def)
    show "quiet w (setOctopus a (Some c) w)" for w a c
      using cg by (simp add: quiet_def) (simp add: setOctopus_def split: option.splits)
    show "quiet w (w\<lparr>designPromise := p\<rparr>)" for w p
      using cg by (simp add: quiet_def)
    show "quiet w (w\<lparr>loadedFonts := insert n (loadedFonts w)\<rparr>)" for w n
      using cg by (simp add: quiet_def)
  qed
qed

section \<open>Registration and finalization of a rendering artboard\<close>

lemma not_isFinalize_simps [simp]:
  "\<not> isFinalize (ExecCommand (LoadArtboardCmd a f s p))"
  "\<not> isFinalize (ExecCommand (GetArtboardDependencies a))"
  "\<not> isFinalize (ExecCommand CreateDesign)"
  by simp_all

lemma triple_getPendingArtboardDependencies:
  "triple (quiet w0) (getPendingArtboardDependencies env a) (\<lambda>_. quiet w0) (\<lambda>_. quiet w0)"
  unfolding getPendingArtboardDependencies_def
  by (rule triple_bind[where M="\<lambda>_. quiet w0"])
     (auto intro!: triple_pres pres_execCommand closedUnder_quiet stable_quiet triple_Fail triple_Done)

lemma triple_renderingArtboardLoad:
  "triple (quiet w0) (renderingArtboardLoad env a f s p)
     (\<lambda>_. quiet w0)
     (\<lambda>L w'. \<exists>w2. quiet w0 w2 \<and> w' = setPendingSymbolIds a L w2)"
  unfolding renderingArtboardLoad_def
proof (rule triple_bind[where M="\<lambda>_. quiet w0"])
  show "triple (quiet w0) (execCommand env (LoadArtboardCmd a f s p)) (\<lambda>_. quiet w0) (\<lambda>_. quiet w0)"
    by (intro triple_pres pres_execCommand closedUnder_quiet stable_quiet) simp
next
  fix loadResult
  have "triple (quiet w0)
          (bind (getPendingArtboardDependencies env a)
            (\<lambda>pending. bind (modify (setPendingSymbolIds a pending)) (\<lambda>_. Done pending)))
          (\<lambda>_. quiet w0) (\<lambda>L w'. \<exists>w2. quiet w0 w2 \<and> w' = setPendingSymbolIds a L w2)"
  proof (rule triple_bind[where M="\<lambda>_. quiet w0"])
    show "triple (quiet w0) (getPendingArtboardDependencies env a) (\<lambda>_. quiet w0) (\<lambda>_. quiet w0)"
      by (rule triple_getPendingArtboardDependencies)
  next
    fix pending
    show "triple (quiet w0) (bind (modify (setPendingSymbolIds a pending)) (\<lambda>_. Done pending))
        (\<lambda>_. quiet w0) (\<lambda>L w'. \<exists>w2. quiet w0 w2 \<and> w' = setPendingSymbolIds a L w2)"
      by (rule triple_bind[where M="\<lambda>_ w'. \<exists>w2. quiet w0 w2 \<and> w' = setPendingSymbolIds a pending w2"])
         (auto intro!: triple_modify triple_Done)
  qed
  then show "triple (quiet w0)
        (if \<not> ok loadResult then Fail (Error ''Failed to load design artboard'')
         else bind (getPendingArtboardDependencies env a)
            (\<lambda>pending. bind (modify (setPendingSymbolIds a pending)) (\<lambda>_. Done pending)))
        (\<lambda>_. quiet w0) (\<lambda>L w'. \<exists>w2. quiet w0 w2 \<and> w' = setPendingSymbolIds a L w2)"
    by (simp add: triple_Fail)
qed

lemma drive_renderingDesignLoadArtboard_registered:
  "artboards w a = Some prev \<Longrightarrow>
   drive (renderingDesignLoadArtboard env a f s p) w = (Returned (pendingSymbolIds prev), w)"
  by (simp add: renderingDesignLoadArtboard_def)

lemma triple_renderingDesignLoadArtboard_new:
  assumes "artboards w a = None"
  shows "triple (\<lambda>x. x = w) (renderingDesignLoadArtboard env a f s p)
     (\<lambda>_. quiet (newRenderingArtboard a w))
     (\<lambda>L w'. \<exists>w2. quiet (newRenderingArtboard a w) w2 \<and> w' = setPendingSymbolIds a L w2)"
  unfolding renderingDesignLoadArtboard_def
  apply (rule triple_Rd)
  apply (simp add: assms)
  apply (rule triple_Wr)
  apply (rule triple_pre[OF triple_renderingArtboardLoad])
  apply (simp add: quiet_refl)
  done

lemma triple_markAsReady:
  "triple (quiet w0) (markAsReady env a)
     (\<lambda>_ w'. quiet w0 w' \<or> (\<exists>w1. quiet w0 w1 \<and> \<not> okFinalize env (trace w1) a \<and> w' = finalizeSent a w1))
     (\<lambda>_ w'. \<exists>w1. quiet w0 w1 \<and> okFinalize env (trace w1) a \<and> w' = setReady a True (finalizeSent a w1))"
  unfolding markAsReady_def execCommand_def
proof (rule triple_bind[where M="\<lambda>r w'. \<exists>w1. quiet w0 w1 \<and> w' = finalizeSent a w1
      \<and> okFinalize env (trace w1) a = ok r"])
  show "triple (quiet w0)
     (bind (ensureDesign env)
       (\<lambda>_. request (ExecCommand (FinalizeArtboard a))
              (\<lambda>h. execCommandReply env h (FinalizeArtboard a))))
     (\<lambda>_ w'. quiet w0 w' \<or> (\<exists>w1. quiet w0 w1 \<and> \<not> okFinalize env (trace w1) a \<and> w' = finalizeSent a w1))
     (\<lambda>r w'. \<exists>w1. quiet w0 w1 \<and> w' = finalizeSent a w1 \<and> okFinalize env (trace w1) a = ok r)"
  proof (rule triple_bind[where M="\<lambda>_. quiet w0"])
    show "triple (quiet w0) (ensureDesign env)
        (\<lambda>_ w'. quiet w0 w' \<or> (\<exists>w1. quiet w0 w1 \<and> \<not> okFinalize env (trace w1) a \<and> w' = finalizeSent a w1))
        (\<lambda>_. quiet w0)"
      by (rule triple_weaken[OF triple_pres[OF pres_ensureDesign[OF closedUnder_quiet] stable_quiet, of w0]])
         auto
  next
    fix u :: unit
    show "triple (quiet w0)
        (request (ExecCommand (FinalizeArtboard a)) (\<lambda>h. execCommandReply env h (FinalizeArtboard a)))
        (\<lambda>_ w'. quiet w0 w' \<or> (\<exists>w1. quiet w0 w1 \<and> \<not> okFinalize env (trace w1) a \<and> w' = finalizeSent a w1))
        (\<lambda>r w'. \<exists>w1. quiet w0 w1 \<and> w' = finalizeSent a w1 \<and> okFinalize env (trace w1) a = ok r)"
      by (rule triple_request) (auto simp: okFinalize_def finalizeSent_def)
  qed
next
  fix finalizeResult
  show "triple (\<lambda>w'. \<exists>w1. quiet w0 w1 \<and> w' = finalizeSent a w1
            \<and> okFinalize env (trace w1) a = ok finalizeResult)
        (if \<not> ok finalizeResult then Fail (Error ''The artboard cannot be marked as ready'')
         else modify (setReady a True))
     (\<lambda>_ w'. quiet w0 w' \<or> (\<exists>w1. quiet w0 w1 \<and> \<not> okFinalize env (trace w1) a \<and> w' = finalizeSent a w1))
     (\<lambda>_ w'. \<exists>w1. quiet w0 w1 \<and> okFinalize env (trace w1) a \<and> w' = setReady a True (finalizeSent a w1))"
    by (cases "ok finalizeResult") (auto intro!: triple_Fail triple_modify)
qed

lemma triple_markArtboardAsReady:
  "triple (\<lambda>x. x = w) (markArtboardAsReady env a)
     (\<lambda>_ w'. quiet w w' \<or> (\<exists>w1. quiet w w1 \<and> artboards w a \<noteq> None
                  \<and> \<not> okFinalize env (trace w1) a \<and> w' = finalizeSent a w1))
     (\<lambda>_ w'. \<exists>w1. quiet w w1 \<and> artboards w a \<noteq> None \<and> okFinalize env (trace w1) a
                  \<and> w' = setReady a True (finalizeSent a w1))"
  unfolding markArtboardAsReady_def
proof (rule triple_Rd, simp, cases "artboards w a")
  case None
  then show "triple (\<lambda>x. x = w)
     (case artboards w a of None \<Rightarrow> Fail (Error ''No such artboard'') | Some x \<Rightarrow> markAsReady env a)
     (\<lambda>_ w'. quiet w w' \<or> (\<exists>w1. quiet w w1 \<and> (\<exists>y. artboards w a = Some y)
                  \<and> \<not> okFinalize env (trace w1) a \<and> w' = finalizeSent a w1))
     (\<lambda>_ w'. \<exists>w1. quiet w w1 \<and> (\<exists>y. artboards w a = Some y) \<and> okFinalize env (trace w1) a
                  \<and> w' = setReady a True (finalizeSent a w1))"
    by (auto intro!: triple_Fail simp: quiet_refl)
next
  case (Some ra)
  then show "triple (\<lambda>x. x = w)
     (case artboards w a of None \<Rightarrow> Fail (Error ''No such artboard'') | Some x \<Rightarrow> markAsReady env a)
     (\<lambda>_ w'. quiet w w' \<or> (\<exists>w1. quiet w w1 \<and> (\<exists>y. artboards w a = Some y)
                  \<and> \<not> okFinalize env (trace w1) a \<and> w' = finalizeSent a w1))
     (\<lambda>_ w'. \<exists>w1. quiet w w1 \<and> (\<exists>y. artboards w a = Some y) \<and> okFinalize env (trace w1) a
                  \<and> w' = setReady a True (finalizeSent a w1))"
    by (simp, intro triple_weaken[OF triple_markAsReady[of w env a]]) (auto simp: quiet_refl)
qed

section \<open>The frame of the rendering load\<close>

lemma quiet_grows: "quiet w w' \<Longrightarrow> grows w w'"
  by (simp add: quiet_def)

lemma grows_artboards_update:
  assumes "\<And>b rb. artboards w b = Some rb \<Longrightarrow>
     \<exists>rb'. m b = Some rb' \<and> pendingSymbolIds rb' = pendingSymbolIds rb \<and> (ready rb \<longrightarrow> ready rb')"
  shows "grows w (w\<lparr>artboards := m\<rparr>)"
proof -
  have "staticEq w (w\<lparr>artboards := m\<rparr>)" by (simp add: staticEq_def)
  moreover have "\<exists>evs. trace (w\<lparr>artboards := m\<rparr>) = trace w @ evs" by simp
  moreover have "\<forall>a. isLoaded w a \<longrightarrow> isLoaded (w\<lparr>artboards := m\<rparr>) a" by (simp add: isLoaded_def)
  moreover have "\<forall>a. loadingArtboardPromises w a \<noteq> None \<longrightarrow>
      loadingArtboardPromises (w\<lparr>artboards := m\<rparr>) a \<noteq> None" by simp
  moreover have "\<forall>a p. loadingArtboardPromises w a = Some p \<longrightarrow> p \<noteq> Pending \<longrightarrow>
      loadingArtboardPromises (w\<lparr>artboards := m\<rparr>) a = Some p" by simp
  ultimately show ?thesis unfolding grows_def using assms by simp
qed

lemma grows_newRenderingArtboard: "artboards w a = None \<Longrightarrow> grows w (newRenderingArtboard a w)"
  unfolding newRenderingArtboard_def
  by (rule grows_artboards_update) (cases "artboards w a", auto)

lemma grows_setReady_True: "grows w (setReady a True w)"
proof (cases "artboards w a")
  case None
  then show ?thesis by (simp add: setReady_def grows_refl)
next
  case (Some ra)
  have "grows w (w\<lparr>artboards := (artboards w)(a \<mapsto> ra\<lparr>ready := True\<rparr>)\<rparr>)"
    by (rule grows_artboards_update) (use Some in auto)
  then show ?thesis using Some by (simp add: setReady_def)
qed

lemma grows_then_artboards_update:
  assumes g: "grows w w2"
    and ab: "\<And>b rb. artboards w b = Some rb \<Longrightarrow>
     \<exists>rb'. m b = Some rb' \<and> pendingSymbolIds rb' = pendingSymbolIds rb \<and> (ready rb \<longrightarrow> ready rb')"
  shows "grows w (w2\<lparr>artboards := m\<rparr>)"
proof -
  have e1: "staticEq w (w2\<lparr>artboards := m\<rparr>) = staticEq w w2" by (simp add: staticEq_def)
  have e2: "trace (w2\<lparr>artboards := m\<rparr>) = trace w2" by simp
  have e3: "isLoaded (w2\<lparr>artboards := m\<rparr>) x = isLoaded w2 x" for x by (simp add: isLoaded_def)
  have e4: "loadingArtboardPromises (w2\<lparr>artboards := m\<rparr>) = loadingArtboardPromises w2" by simp
  have e5: "artboards (w2\<lparr>artboards := m\<rparr>) = m" by simp
  from g have st: "staticEq w w2" and tr: "\<exists>evs. trace w2 = trace w @ evs"
    and ld: "\<forall>a. isLoaded w a \<longrightarrow> isLoaded w2 a"
    and pr: "\<forall>a. loadingArtboardPromises w a \<noteq> None \<longrightarrow> loadingArtboardPromises w2 a \<noteq> None"
    and ps: "\<forall>a p. loadingArtboardPromises w a = Some p \<longrightarrow> p \<noteq> Pending \<longrightarrow>
      loadingArtboardPromises w2 a = Some p"
    unfolding grows_def by blast+
  show ?thesis
    unfolding grows_def e1 e2 e3 e4 e5
    using st tr ld pr ps ab by blast
qed

lemma grows_setPendingSymbolIds_other:
  assumes g: "grows w w2" and n: "artboards w a = None"
  shows "grows w (setPendingSymbolIds a L w2)"
proof (cases "artboards w2 a")
  case None
  then show ?thesis using g by (simp add: setPendingSymbolIds_def)
next
  case (Some ra)
  let ?m = "(artboards w2)(a \<mapsto> ra\<lparr>pendingSymbolIds := L\<rparr>)"
  have eq: "setPendingSymbolIds a L w2 = w2\<lparr>artboards := ?m\<rparr>"
    using Some by (simp add: setPendingSymbolIds_def)
  have ab: "\<exists>rb'. ?m b = Some rb' \<and> pendingSymbolIds rb' = pendingSymbolIds rb \<and> (ready rb \<longrightarrow> ready rb')"
    if h: "artboards w b = Some rb" for b rb
  proof -
    have "b \<noteq> a" using h n by auto
    moreover have "\<exists>rb'. artboards w2 b = Some rb' \<and> pendingSymbolIds rb' = pendingSymbolIds rb
        \<and> (ready rb \<longrightarrow> ready rb')"
      using g h unfolding grows_def by blast
    ultimately show ?thesis by simp
  qed
  show ?thesis unfolding eq by (rule grows_then_artboards_update[OF g ab])
qed

lemma grows_finalizeSent: "grows w (finalizeSent a w)"
  using closedUnder_grows by (simp add: closedUnder_def finalizeSent_def grows_def staticEq_def isLoaded_def)

lemma pres_grows_renderingDesignLoadArtboard:
  "pres grows (renderingDesignLoadArtboard env a f s p)"
proof (rule pres_triple)
  fix w0
  show "triple (\<lambda>w. w = w0) (renderingDesignLoadArtboard env a f s p) (\<lambda>_. grows w0) (\<lambda>_. grows w0)"
  proof (cases "artboards w0 a")
    case None
    have g: "grows w0 w2" if "quiet (newRenderingArtboard a w0) w2" for w2
      using that grows_newRenderingArtboard[OF None] quiet_grows grows_trans by blast
    show ?thesis
      by (rule triple_weaken[OF triple_renderingDesignLoadArtboard_new[OF None]])
         (auto intro: g grows_setPendingSymbolIds_other[OF g None])
  next
    case (Some prev)
    show ?thesis
      by (rule tripleI) (simp add: drive_renderingDesignLoadArtboard_registered[OF Some] grows_refl)
  qed
qed

lemma pres_grows_markArtboardAsReady: "pres grows (markArtboardAsReady env a)"
proof (rule pres_triple)
  fix w0
  have 1: "grows w0 (finalizeSent a w1)" if "quiet w0 w1" for w1
    using that quiet_grows grows_finalizeSent grows_trans by blast
  have 2: "grows w0 (setReady a True (finalizeSent a w1))" if "quiet w0 w1" for w1
    using 1[OF that] grows_setReady_True grows_trans by blast
  show "triple (\<lambda>w. w = w0) (markArtboardAsReady env a) (\<lambda>_. grows w0) (\<lambda>_. grows w0)"
    by (rule triple_weaken[OF triple_markArtboardAsReady]) (auto intro: 1 2 quiet_grows)
qed

lemma pres_grows_load: "pres grows (loadRenderingDesignArtboard env n a ps)"
  by (intro pres_loadRenderingDesignArtboard closedUnder_grows
      pres_grows_renderingDesignLoadArtboard pres_grows_markArtboardAsReady)

lemma drive_bind_Returned:
  assumes "drive (bind p f) w = (Returned b, w')"
  obtains a w1 where "drive p w = (Returned a, w1)" "drive (f a) w1 = (Returned b, w')"
  using assms by (auto simp: drive_bind split: prod.splits outcome.splits)

lemma loadSteps_Returned_ready:
  assumes "drive (loadSteps env self a artboard ps) w = (Returned u, w')"
  shows "isArtboardReady w' a"
  using assms unfolding loadSteps_def
  apply -
  apply (erule drive_bind_Returned)
  apply (erule drive_bind_Returned)
  apply (simp split: option.splits)
  apply (erule drive_bind_Returned)
  apply (erule drive_bind_Returned)
  apply (erule drive_bind_Returned)
  apply (erule drive_bind_Returned)
  apply (erule drive_bind_Returned)
  apply (erule drive_bind_Returned)
  apply (simp add: checkReady_def split: if_splits)
  done

lemma load_Returned_ready:
  assumes "drive (loadRenderingDesignArtboard env n a ps) w = (Returned u, w')"
  shows "isArtboardReady w' a \<and> renderingDesign w'"
proof (cases n)
  case 0
  then show ?thesis using assms by simp
next
  case (Suc depth)
  have rd: "renderingDesign w' = renderingDesign w"
    using presD[OF pres_grows_load assms] by (simp add: grows_def staticEq_def)
  have "isArtboardReady w' a"
    using assms unfolding Suc loadRenderingDesignArtboard.simps
    by (auto split: if_splits option.splits dest: loadSteps_Returned_ready)
  moreover have "renderingDesign w"
    using assms unfolding Suc loadRenderingDesignArtboard.simps
    by (auto split: if_splits)
  ultimately show ?thesis using rd by simp
qed

section \<open>Evaluating runs of the example design\<close>

lemmas run_defs = loadRenderingDesignArtboard.simps loadSteps_def loadDependency_def checkReady_def
  artboardLoad_def loadArtboard_def loadArtboardContent_def renderingDesignLoadArtboard_def
  renderingArtboardLoad_def getPendingArtboardDependencies_def execCommand_def ensureDesign_def
  createDesign_def markArtboardAsReady_def markAsReady_def request_def modify_def awaitPromise_def
  throwIfCancelled_def isCancelled_def settled_def truthy_def
  getArtboardById_def getArtboardByComponentId_def isLoaded_def isArtboardReady_def
  setOctopus_def setLoadingArtboardPromise_def newRenderingArtboard_def setPendingSymbolIds_def
  setReady_def okEnvWith_def okEnv_def exampleWorld_def noAssets_def

lemma example_load_B:
  "fst (drive (loadRenderingDesignArtboard okEnv 1 ''B'' noAssets) exampleWorld) = Returned ()"
  by (simp add: run_defs)

lemma example_load_B_ready:
  "isArtboardReady (snd (drive (loadRenderingDesignArtboard okEnv 1 ''B'' noAssets) exampleWorld)) ''B''"
  by (simp add: run_defs)

section \<open>Artboards that stay unready\<close>





lemma isArtboardReady_setPendingSymbolIds [simp]:
  "isArtboardReady (setPendingSymbolIds b L w) a = isArtboardReady w a"
  by (simp add: isArtboardReady_def setPendingSymbolIds_def split: option.splits)


lemma isArtboardReady_finalizeSent [simp]:
  "isArtboardReady (finalizeSent b w) a = isArtboardReady w a"
  by (simp add: isArtboardReady_def finalizeSent_def)







section \<open>The registry of content loads\<close>

lemma grows_keepsEntries: "grows w w' \<Longrightarrow> keepsEntries w w'"
  by (simp add: grows_def keepsEntries_def)

lemma pres_execCommand_steps:
  assumes st: "stable R"
    and ev: "\<And>w e. R w (w\<lparr>trace := trace w @ [e]\<rparr>)"
    and dp: "\<And>w p. R w (w\<lparr>designPromise := p\<rparr>)"
  shows "pres R (execCommand env cmd)"
proof -
  have rq: "pres R (request e reply)" for e and reply :: "event list \<Rightarrow> error + 'x"
    using st ev by (rule pres_request)
  have cd: "pres R (createDesign env)"
    unfolding createDesign_def
    by (rule pres_bind) (simp_all add: rq pres_Done pres_Fail st)
  have t: "pres R (tryCatch
               (bind (createDesign env)
                  (\<lambda>_. modify (\<lambda>w. w\<lparr>designPromise := Some Fulfilled\<rparr>)))
               (\<lambda>e. bind (modify (\<lambda>w. w\<lparr>designPromise := Some (RejectedWith e)\<rparr>))
                  (\<lambda>_. Fail e)))"
    by (intro pres_tryCatch pres_bind pres_modify pres_Fail st cd) (rule dp)+
  have ed: "pres R (ensureDesign env)"
    unfolding ensureDesign_def
    by (rule presI)
       (simp add: presAt_Rd_iff presAt_Wr presAt_pres t pres_awaitPromise st dp
          split: option.splits)
  show ?thesis
    unfolding execCommand_def
    by (rule pres_bind) (simp_all add: st ed rq)
qed

lemma stable_sameEntities: "stable sameEntities"
  by (simp add: stable_def sameEntities_def)

lemma pres_sameEntities_renderingDesignUnloadArtboard:
  "pres sameEntities (renderingDesignUnloadArtboard env a)"
proof -
  note st = stable_sameEntities
  have ex: "pres sameEntities (execCommand env cmd)" for cmd
    by (rule pres_execCommand_steps[OF st]) (simp_all add: sameEntities_def)
  have sr: "sameEntities w (setReady a False w)" for w
    by (simp add: sameEntities_def setReady_def split: option.splits)
  have rm: "sameEntities w (w\<lparr>artboards := m\<rparr>)" for w m
    by (simp add: sameEntities_def)
  have tl: "pres sameEntities (bind (execCommand env (UnloadArtboardCmd a))
            (\<lambda>result. if \<not> ok result
               then Fail (Error ''Failed to unload artboard'')
               else Done ()))"
    by (rule pres_bind) (simp_all add: st ex pres_Fail pres_Done)
  have ru: "pres sameEntities (renderingArtboardUnload env a)"
    unfolding renderingArtboardUnload_def
    by (rule presI) (simp add: presAt_Rd_iff presAt_Wr[OF st sr tl] presAt_Fail st)
  have md: "pres sameEntities (bind (renderingArtboardUnload env a)
             (\<lambda>_. modify (\<lambda>w. w\<lparr>artboards := (artboards w)(a := None)\<rparr>)))"
    by (rule pres_bind) (simp_all add: st ru pres_modify rm)
  show ?thesis
    unfolding renderingDesignUnloadArtboard_def
    by (rule presI)
       (simp add: presAt_Rd_iff presAt_pres md presAt_Fail st split: option.splits)
qed

lemma drive_unloadArtboard_loaded:
  assumes "getArtboardById w a \<noteq> None" "isLoaded w a"
    and d: "drive (unloadArtboard env a) w = (r, w')"
  shows "sameEntities (setOctopus a None w) w'"
proof -
  have "sameEntities (setOctopus a None w) w'"
  proof (cases "renderingDesign w")
    case True
    then have "drive (renderingDesignUnloadArtboard env a) (setOctopus a None w) = (r, w')"
      using assms by (auto simp: unloadArtboard_def split: option.splits)
    then show ?thesis by (rule presD[OF pres_sameEntities_renderingDesignUnloadArtboard])
  next
    case False
    then have "w' = setOctopus a None w"
      using assms by (auto simp: unloadArtboard_def split: option.splits)
    then show ?thesis by (simp add: sameEntities_def)
  qed
  then show ?thesis .
qed

lemma drive_unloadArtboard_registry:
  assumes d: "drive (unloadArtboard env a) w = (r, w')"
  shows "loadingArtboardPromises w' = loadingArtboardPromises w"
proof (cases "getArtboardById w a \<noteq> None \<and> isLoaded w a")
  case True
  then show ?thesis using drive_unloadArtboard_loaded[OF _ _ d] by (simp add: sameEntities_def)
next
  case False
  then have "w' = w" using d by (auto simp: unloadArtboard_def split: option.splits)
  then show ?thesis by simp
qed

lemma drive_loadArtboard_registered:
  assumes "getArtboardById w a \<noteq> None" "loadingArtboardPromises w a = Some p"
  shows "drive (loadArtboard env a) w =
     (case p of Pending \<Rightarrow> Stopped Blocked | Fulfilled \<Rightarrow> Returned ()
            | RejectedWith e \<Rightarrow> Stopped (Threw e), w)"
  using assms
  by (auto simp: loadArtboard_def drive_awaitPromise split: option.splits promise.splits)

lemma drive_loadArtboard_started:
  assumes ex: "getArtboardById w a \<noteq> None" and nl: "\<not> isLoaded w a"
    and d: "drive (loadArtboard env a) w = (r, w1)"
  shows "loadingArtboardPromises w1 a \<noteq> None
     \<and> (loadingArtboardPromises w a = None \<longrightarrow>
          (\<forall>e. r = Stopped (Threw e) \<longrightarrow> loadingArtboardPromises w1 a = Some (RejectedWith e))
          \<and> (r = Returned () \<longrightarrow> loadingArtboardPromises w1 a = Some Fulfilled))"
proof (cases "loadingArtboardPromises w a")
  case (Some p)
  then show ?thesis using d drive_loadArtboard_registered[OF ex Some, of env] by auto
next
  case None
  let ?w0 = "setLoadingArtboardPromise a Pending w"
  obtain rc w2 where c: "drive (loadArtboardContent env a) ?w0 = (rc, w2)"
    by (cases "drive (loadArtboardContent env a) ?w0")
  have p2: "loadingArtboardPromises w2 a = Some Pending"
    using loadArtboardContent_registry[OF c] by (simp add: setLoadingArtboardPromise_def)
  show ?thesis
    using d p2 None unfolding drive_loadArtboard_read[OF ex None nl c]
    by (auto simp: setLoadingArtboardPromise_def split: outcome.splits stop.splits)
qed


section \<open>C3: a finalization that is not acknowledged\<close>




section \<open>C4: a ready artboard is not loaded again\<close>

text \<open>
  C4: when the artboard is already ready in the rendering design, the load returns at once,
  without waiting, and leaves the state and the log of requests as they are; in particular a
  load that has returned makes every later load of the same artboard such a call.
\<close>

theorem ready_artboard_load_does_nothing:
  "(renderingDesign w \<and> isArtboardReady w a \<longrightarrow>
       advance (loadRenderingDesignArtboard env (Suc depth) a ps) w = (Done (), w)
       \<and> drive (loadRenderingDesignArtboard env (Suc depth) a ps) w = (Returned (), w))
   \<and> (drive (loadRenderingDesignArtboard env n a ps) w = (Returned (), w') \<longrightarrow>
       drive (loadRenderingDesignArtboard env (Suc depth) a ps') w' = (Returned (), w'))"
proof (intro conjI impI)
  assume "renderingDesign w \<and> isArtboardReady w a"
  then show "advance (loadRenderingDesignArtboard env (Suc depth) a ps) w = (Done (), w)"
    and "drive (loadRenderingDesignArtboard env (Suc depth) a ps) w = (Returned (), w)"
    by simp_all
next
  assume "drive (loadRenderingDesignArtboard env n a ps) w = (Returned (), w')"
  then have "isArtboardReady w' a \<and> renderingDesign w'" by (rule load_Returned_ready)
  then show "drive (loadRenderingDesignArtboard env (Suc depth) a ps') w' = (Returned (), w')"
    by simp
qed

theorem ready_artboard_load_does_nothing_witness:
  "drive (loadRenderingDesignArtboard okEnv 1 ''B'' noAssets) exampleWorld =
     (Returned (), snd (drive (loadRenderingDesignArtboard okEnv 1 ''B'' noAssets) exampleWorld))
   \<and> renderingDesign (snd (drive (loadRenderingDesignArtboard okEnv 1 ''B'' noAssets) exampleWorld))
   \<and> isArtboardReady (snd (drive (loadRenderingDesignArtboard okEnv 1 ''B'' noAssets) exampleWorld)) ''B''
   \<and> advance (loadRenderingDesignArtboard okEnv 1 ''B'' noAssets)
        (snd (drive (loadRenderingDesignArtboard okEnv 1 ''B'' noAssets) exampleWorld))
      = (Done (), snd (drive (loadRenderingDesignArtboard okEnv 1 ''B'' noAssets) exampleWorld))
   \<and> drive (loadRenderingDesignArtboard okEnv 1 ''B'' noAssets)
        (snd (drive (loadRenderingDesignArtboard okEnv 1 ''B'' noAssets) exampleWorld))
      = (Returned (), snd (drive (loadRenderingDesignArtboard okEnv 1 ''B'' noAssets) exampleWorld))"
proof -
  let ?W = "snd (drive (loadRenderingDesignArtboard okEnv 1 ''B'' noAssets) exampleWorld)"
  have h1: "drive (loadRenderingDesignArtboard okEnv 1 ''B'' noAssets) exampleWorld = (Returned (), ?W)"
    using example_load_B by (simp add: prod_eq_iff)
  have h2: "renderingDesign ?W \<and> isArtboardReady ?W ''B''"
    using load_Returned_ready[OF h1] by simp
  from ready_artboard_load_does_nothing[where w="?W" and a="''B''" and env=okEnv and depth=0
      and ps=noAssets and n=1 and w'="?W" and ps'=noAssets] h1 h2
  show ?thesis by simp
qed

section \<open>C8: aggregation of asset descriptors\<close>

text \<open>
  C8 (as stated, refuted): permuting the input does not always give the same result.  Two
  descriptors of one bitmap name that differ in \<open>prerendered\<close> are merged into one
  descriptor that keeps the flag of whichever comes first; two descriptors of one font
  postscript name that differ in \<open>fontName\<close> and \<open>fontPostScriptNameSynthetic\<close> are
  merged into one descriptor that keeps the values of whichever comes first.
\<close>

theorem keepUnique_permutation_counterexample:
  "mset [\<lparr>name = ''img'', layerIds = [''l1''], prerendered = True\<rparr>,
         \<lparr>name = ''img'', layerIds = [''l2''], prerendered = False\<rparr>]
     = mset [\<lparr>name = ''img'', layerIds = [''l2''], prerendered = False\<rparr>,
             \<lparr>name = ''img'', layerIds = [''l1''], prerendered = True\<rparr>]
   \<and> keepUniqueBitmapAssetDescriptors
        [\<lparr>name = ''img'', layerIds = [''l1''], prerendered = True\<rparr>,
         \<lparr>name = ''img'', layerIds = [''l2''], prerendered = False\<rparr>]
       = [\<lparr>name = ''img'', layerIds = [''l1'', ''l2''], prerendered = True\<rparr>]
   \<and> keepUniqueBitmapAssetDescriptors
        [\<lparr>name = ''img'', layerIds = [''l2''], prerendered = False\<rparr>,
         \<lparr>name = ''img'', layerIds = [''l1''], prerendered = True\<rparr>]
       = [\<lparr>name = ''img'', layerIds = [''l2'', ''l1''], prerendered = False\<rparr>]
   \<and> mset [\<lparr>fontPostScriptName = ''Arial-Bold'', fontPostScriptNameSynthetic = False,
             fontTypes = [''bold''], fontName = ''Arial Bold'', fontLayerIds = [''t1'']\<rparr>,
            \<lparr>fontPostScriptName = ''Arial-Bold'', fontPostScriptNameSynthetic = True,
             fontTypes = [''bold''], fontName = ''Arial'', fontLayerIds = [''t2'']\<rparr>]
     = mset [\<lparr>fontPostScriptName = ''Arial-Bold'', fontPostScriptNameSynthetic = True,
             fontTypes = [''bold''], fontName = ''Arial'', fontLayerIds = [''t2'']\<rparr>,
            \<lparr>fontPostScriptName = ''Arial-Bold'', fontPostScriptNameSynthetic = False,
             fontTypes = [''bold''], fontName = ''Arial Bold'', fontLayerIds = [''t1'']\<rparr>]
   \<and> keepUniqueFontDescriptors
        [\<lparr>fontPostScriptName = ''Arial-Bold'', fontPostScriptNameSynthetic = False,
             fontTypes = [''bold''], fontName = ''Arial Bold'', fontLayerIds = [''t1'']\<rparr>,
         \<lparr>fontPostScriptName = ''Arial-Bold'', fontPostScriptNameSynthetic = True,
             fontTypes = [''bold''], fontName = ''Arial'', fontLayerIds = [''t2'']\<rparr>]
       = [\<lparr>fontPostScriptName = ''Arial-Bold'', fontPostScriptNameSynthetic = False,
             fontTypes = [''bold''], fontName = ''Arial Bold'', fontLayerIds = [''t1'', ''t2'']\<rparr>]
   \<and> keepUniqueFontDescriptors
        [\<lparr>fontPostScriptName = ''Arial-Bold'', fontPostScriptNameSynthetic = True,
             fontTypes = [''bold''], fontName = ''Arial'', fontLayerIds = [''t2'']\<rparr>,
         \<lparr>fontPostScriptName = ''Arial-Bold'', fontPostScriptNameSynthetic = False,
             fontTypes = [''bold''], fontName = ''Arial Bold'', fontLayerIds = [''t1'']\<rparr>]
       = [\<lparr>fontPostScriptName = ''Arial-Bold'', fontPostScriptNameSynthetic = True,
             fontTypes = [''bold''], fontName = ''Arial'', fontLayerIds = [''t2'', ''t1'']\<rparr>]"
  by (simp add: keepUniqueBitmapAssetDescriptors_def addBitmapAssetDesc_def
      keepUniqueFontDescriptors_def addFontDesc_def mergeArrays_def Let_def)

text \<open>
  C8 (amended).  \<open>keepUniqueBitmapAssetDescriptors\<close> and \<open>keepUniqueFontDescriptors\<close>
  return exactly one descriptor per name (postscript name), in the order in which the names
  first occur in the input.  The descriptor of a name carries the duplicate-free union, in order
  of first occurrence, of the layer ids (and, for fonts, the font types) of all input descriptors
  of that name; its remaining fields (\<open>prerendered\<close>, \<open>fontName\<close>,
  \<open>fontPostScriptNameSynthetic\<close>) are those of the first input descriptor of that name.
  Feeding the input twice gives exactly the same list.  Permuting the input gives the same names
  with the same sets of layer ids and font types; where the input descriptors of each name agree
  on the remaining fields, the permuted input gives the same descriptors up to the order of the
  output and the order inside the id lists.
\<close>

theorem keepUnique_first_occurrence_merge:
  "keepUniqueBitmapAssetDescriptors xs = map (mergedBitmap xs) (uniq [] (map name xs))
   \<and> map name (keepUniqueBitmapAssetDescriptors xs) = rev (remdups (rev (map name xs)))
   \<and> (\<forall>d \<in> set (keepUniqueBitmapAssetDescriptors xs).
        prerendered d = prerendered (hd (filter (\<lambda>x. name x = name d) xs))
        \<and> distinct (layerIds d)
        \<and> set (layerIds d) = (\<Union>x \<in> {x \<in> set xs. name x = name d}. set (layerIds x)))
   \<and> keepUniqueBitmapAssetDescriptors (xs @ xs) = keepUniqueBitmapAssetDescriptors xs
   \<and> (mset xs = mset ys \<longrightarrow>
        (\<lambda>d. (name d, set (layerIds d))) ` set (keepUniqueBitmapAssetDescriptors xs)
          = (\<lambda>d. (name d, set (layerIds d))) ` set (keepUniqueBitmapAssetDescriptors ys))
   \<and> (mset xs = mset ys \<and> bitmapsAgree xs \<longrightarrow>
        bitmapUpToOrder (keepUniqueBitmapAssetDescriptors xs)
          = bitmapUpToOrder (keepUniqueBitmapAssetDescriptors ys))
   \<and> keepUniqueFontDescriptors fs = map (mergedFont fs) (uniq [] (map fontPostScriptName fs))
   \<and> map fontPostScriptName (keepUniqueFontDescriptors fs)
        = rev (remdups (rev (map fontPostScriptName fs)))
   \<and> (\<forall>d \<in> set (keepUniqueFontDescriptors fs).
        fontName d = fontName (hd (filter (\<lambda>x. fontPostScriptName x = fontPostScriptName d) fs))
        \<and> fontPostScriptNameSynthetic d =
            fontPostScriptNameSynthetic (hd (filter (\<lambda>x. fontPostScriptName x = fontPostScriptName d) fs))
        \<and> distinct (fontTypes d) \<and> distinct (fontLayerIds d)
        \<and> set (fontTypes d) =
            (\<Union>x \<in> {x \<in> set fs. fontPostScriptName x = fontPostScriptName d}. set (fontTypes x))
        \<and> set (fontLayerIds d) =
            (\<Union>x \<in> {x \<in> set fs. fontPostScriptName x = fontPostScriptName d}. set (fontLayerIds x)))
   \<and> keepUniqueFontDescriptors (fs @ fs) = keepUniqueFontDescriptors fs
   \<and> (mset fs = mset gs \<longrightarrow>
        (\<lambda>d. (fontPostScriptName d, set (fontTypes d), set (fontLayerIds d)))
            ` set (keepUniqueFontDescriptors fs)
          = (\<lambda>d. (fontPostScriptName d, set (fontTypes d), set (fontLayerIds d)))
            ` set (keepUniqueFontDescriptors gs))
   \<and> (mset fs = mset gs \<and> fontsAgree fs \<longrightarrow>
        fontUpToOrder (keepUniqueFontDescriptors fs) = fontUpToOrder (keepUniqueFontDescriptors gs))"
proof -
  have b1: "mset xs = mset ys \<longrightarrow>
        (\<lambda>d. (name d, set (layerIds d))) ` set (keepUniqueBitmapAssetDescriptors xs)
          = (\<lambda>d. (name d, set (layerIds d))) ` set (keepUniqueBitmapAssetDescriptors ys)"
  proof
    assume "mset xs = mset ys"
    then have "set xs = set ys" by (rule mset_eq_setD)
    then show "(\<lambda>d. (name d, set (layerIds d))) ` set (keepUniqueBitmapAssetDescriptors xs)
          = (\<lambda>d. (name d, set (layerIds d))) ` set (keepUniqueBitmapAssetDescriptors ys)"
      by (simp only: bitmapNameIds_keepUnique)
  qed
  have b2: "mset xs = mset ys \<and> bitmapsAgree xs \<longrightarrow>
        bitmapUpToOrder (keepUniqueBitmapAssetDescriptors xs)
          = bitmapUpToOrder (keepUniqueBitmapAssetDescriptors ys)"
  proof
    assume h: "mset xs = mset ys \<and> bitmapsAgree xs"
    then have "mset xs = mset ys" by (rule conjunct1)
    then have s: "set xs = set ys" by (rule mset_eq_setD)
    have ax: "bitmapsAgree xs" using h by (rule conjunct2)
    then have ay: "bitmapsAgree ys" by (simp only: bitmapsAgree_set[OF s])
    show "bitmapUpToOrder (keepUniqueBitmapAssetDescriptors xs)
          = bitmapUpToOrder (keepUniqueBitmapAssetDescriptors ys)"
      by (simp only: bitmapUpToOrder_keepUnique[OF ax] bitmapUpToOrder_keepUnique[OF ay] s)
  qed
  have f1: "mset fs = mset gs \<longrightarrow>
        (\<lambda>d. (fontPostScriptName d, set (fontTypes d), set (fontLayerIds d)))
            ` set (keepUniqueFontDescriptors fs)
          = (\<lambda>d. (fontPostScriptName d, set (fontTypes d), set (fontLayerIds d)))
            ` set (keepUniqueFontDescriptors gs)"
  proof
    assume "mset fs = mset gs"
    then have "set fs = set gs" by (rule mset_eq_setD)
    then show "(\<lambda>d. (fontPostScriptName d, set (fontTypes d), set (fontLayerIds d)))
            ` set (keepUniqueFontDescriptors fs)
          = (\<lambda>d. (fontPostScriptName d, set (fontTypes d), set (fontLayerIds d)))
            ` set (keepUniqueFontDescriptors gs)"
      by (simp only: fontNameIds_keepUnique)
  qed
  have f2: "mset fs = mset gs \<and> fontsAgree fs \<longrightarrow>
        fontUpToOrder (keepUniqueFontDescriptors fs) = fontUpToOrder (keepUniqueFontDescriptors gs)"
  proof
    assume h: "mset fs = mset gs \<and> fontsAgree fs"
    then have "mset fs = mset gs" by (rule conjunct1)
    then have s: "set fs = set gs" by (rule mset_eq_setD)
    have ax: "fontsAgree fs" using h by (rule conjunct2)
    then have ay: "fontsAgree gs" by (simp only: fontsAgree_set[OF s])
    show "fontUpToOrder (keepUniqueFontDescriptors fs) = fontUpToOrder (keepUniqueFontDescriptors gs)"
      by (simp only: fontUpToOrder_keepUnique[OF ax] fontUpToOrder_keepUnique[OF ay] s)
  qed
  have b3: "\<forall>d \<in> set (keepUniqueBitmapAssetDescriptors xs).
        prerendered d = prerendered (hd (filter (\<lambda>x. name x = name d) xs))
        \<and> distinct (layerIds d)
        \<and> set (layerIds d) = (\<Union>x \<in> {x \<in> set xs. name x = name d}. set (layerIds x))"
    by (rule ballI) (rule keepUniqueBitmap_members)
  have f3: "\<forall>d \<in> set (keepUniqueFontDescriptors fs).
        fontName d = fontName (hd (filter (\<lambda>x. fontPostScriptName x = fontPostScriptName d) fs))
        \<and> fontPostScriptNameSynthetic d =
            fontPostScriptNameSynthetic (hd (filter (\<lambda>x. fontPostScriptName x = fontPostScriptName d) fs))
        \<and> distinct (fontTypes d) \<and> distinct (fontLayerIds d)
        \<and> set (fontTypes d) =
            (\<Union>x \<in> {x \<in> set fs. fontPostScriptName x = fontPostScriptName d}. set (fontTypes x))
        \<and> set (fontLayerIds d) =
            (\<Union>x \<in> {x \<in> set fs. fontPostScriptName x = fontPostScriptName d}. set (fontLayerIds x))"
    by (rule ballI) (rule keepUniqueFont_members)
  note parts = keepUniqueBitmapAssetDescriptors_eq[of xs] keepUniqueBitmap_names[of xs] b3
      keepUniqueBitmap_dup[of xs] b1 b2
      keepUniqueFontDescriptors_eq[of fs] keepUniqueFont_names[of fs] f3
      keepUniqueFont_dup[of fs] f1 f2
  show ?thesis
    by (rule conjI, rule parts)+ (rule parts)
qed

theorem keepUnique_first_occurrence_merge_witness:
  "mset [\<lparr>name = ''a'', layerIds = [''1''], prerendered = True\<rparr>,
         \<lparr>name = ''b'', layerIds = [''2''], prerendered = False\<rparr>,
         \<lparr>name = ''a'', layerIds = [''3''], prerendered = True\<rparr>]
     = mset [\<lparr>name = ''a'', layerIds = [''3''], prerendered = True\<rparr>,
             \<lparr>name = ''a'', layerIds = [''1''], prerendered = True\<rparr>,
             \<lparr>name = ''b'', layerIds = [''2''], prerendered = False\<rparr>]
   \<and> bitmapsAgree [\<lparr>name = ''a'', layerIds = [''1''], prerendered = True\<rparr>,
         \<lparr>name = ''b'', layerIds = [''2''], prerendered = False\<rparr>,
         \<lparr>name = ''a'', layerIds = [''3''], prerendered = True\<rparr>]
   \<and> \<lparr>name = ''a'', layerIds = [''1'', ''3''], prerendered = True\<rparr>
       \<in> set (keepUniqueBitmapAssetDescriptors
        [\<lparr>name = ''a'', layerIds = [''1''], prerendered = True\<rparr>,
         \<lparr>name = ''b'', layerIds = [''2''], prerendered = False\<rparr>,
         \<lparr>name = ''a'', layerIds = [''3''], prerendered = True\<rparr>])
   \<and> bitmapUpToOrder (keepUniqueBitmapAssetDescriptors
        [\<lparr>name = ''a'', layerIds = [''1''], prerendered = True\<rparr>,
         \<lparr>name = ''b'', layerIds = [''2''], prerendered = False\<rparr>,
         \<lparr>name = ''a'', layerIds = [''3''], prerendered = True\<rparr>])
     = bitmapUpToOrder (keepUniqueBitmapAssetDescriptors
        [\<lparr>name = ''a'', layerIds = [''3''], prerendered = True\<rparr>,
         \<lparr>name = ''a'', layerIds = [''1''], prerendered = True\<rparr>,
         \<lparr>name = ''b'', layerIds = [''2''], prerendered = False\<rparr>])
   \<and> mset [\<lparr>fontPostScriptName = ''Arial'', fontPostScriptNameSynthetic = False,
             fontTypes = [''regular''], fontName = ''Arial'', fontLayerIds = [''1'']\<rparr>,
            \<lparr>fontPostScriptName = ''Arial'', fontPostScriptNameSynthetic = False,
             fontTypes = [''bold''], fontName = ''Arial'', fontLayerIds = [''2'']\<rparr>]
     = mset [\<lparr>fontPostScriptName = ''Arial'', fontPostScriptNameSynthetic = False,
             fontTypes = [''bold''], fontName = ''Arial'', fontLayerIds = [''2'']\<rparr>,
            \<lparr>fontPostScriptName = ''Arial'', fontPostScriptNameSynthetic = False,
             fontTypes = [''regular''], fontName = ''Arial'', fontLayerIds = [''1'']\<rparr>]
   \<and> fontsAgree [\<lparr>fontPostScriptName = ''Arial'', fontPostScriptNameSynthetic = False,
             fontTypes = [''regular''], fontName = ''Arial'', fontLayerIds = [''1'']\<rparr>,
            \<lparr>fontPostScriptName = ''Arial'', fontPostScriptNameSynthetic = False,
             fontTypes = [''bold''], fontName = ''Arial'', fontLayerIds = [''2'']\<rparr>]
   \<and> \<lparr>fontPostScriptName = ''Arial'', fontPostScriptNameSynthetic = False,
             fontTypes = [''regular'', ''bold''], fontName = ''Arial'', fontLayerIds = [''1'', ''2'']\<rparr>
       \<in> set (keepUniqueFontDescriptors
        [\<lparr>fontPostScriptName = ''Arial'', fontPostScriptNameSynthetic = False,
             fontTypes = [''regular''], fontName = ''Arial'', fontLayerIds = [''1'']\<rparr>,
            \<lparr>fontPostScriptName = ''Arial'', fontPostScriptNameSynthetic = False,
             fontTypes = [''bold''], fontName = ''Arial'', fontLayerIds = [''2'']\<rparr>])
   \<and> fontUpToOrder (keepUniqueFontDescriptors
        [\<lparr>fontPostScriptName = ''Arial'', fontPostScriptNameSynthetic = False,
             fontTypes = [''regular''], fontName = ''Arial'', fontLayerIds = [''1'']\<rparr>,
            \<lparr>fontPostScriptName = ''Arial'', fontPostScriptNameSynthetic = False,
             fontTypes = [''bold''], fontName = ''Arial'', fontLayerIds = [''2'']\<rparr>])
     = fontUpToOrder (keepUniqueFontDescriptors
        [\<lparr>fontPostScriptName = ''Arial'', fontPostScriptNameSynthetic = False,
             fontTypes = [''bold''], fontName = ''Arial'', fontLayerIds = [''2'']\<rparr>,
            \<lparr>fontPostScriptName = ''Arial'', fontPostScriptNameSynthetic = False,
             fontTypes = [''regular''], fontName = ''Arial'', fontLayerIds = [''1'']\<rparr>])"
proof -
  let ?xs = "[\<lparr>name = ''a'', layerIds = [''1''], prerendered = True\<rparr>,
         \<lparr>name = ''b'', layerIds = [''2''], prerendered = False\<rparr>,
         \<lparr>name = ''a'', layerIds = [''3''], prerendered = True\<rparr>]"
  let ?ys = "[\<lparr>name = ''a'', layerIds = [''3''], prerendered = True\<rparr>,
             \<lparr>name = ''a'', layerIds = [''1''], prerendered = True\<rparr>,
             \<lparr>name = ''b'', layerIds = [''2''], prerendered = False\<rparr>]"
  let ?fs = "[\<lparr>fontPostScriptName = ''Arial'', fontPostScriptNameSynthetic = False,
             fontTypes = [''regular''], fontName = ''Arial'', fontLayerIds = [''1'']\<rparr>,
            \<lparr>fontPostScriptName = ''Arial'', fontPostScriptNameSynthetic = False,
             fontTypes = [''bold''], fontName = ''Arial'', fontLayerIds = [''2'']\<rparr>]"
  let ?gs = "[\<lparr>fontPostScriptName = ''Arial'', fontPostScriptNameSynthetic = False,
             fontTypes = [''bold''], fontName = ''Arial'', fontLayerIds = [''2'']\<rparr>,
            \<lparr>fontPostScriptName = ''Arial'', fontPostScriptNameSynthetic = False,
             fontTypes = [''regular''], fontName = ''Arial'', fontLayerIds = [''1'']\<rparr>]"
  have h1: "mset ?xs = mset ?ys" by simp
  have h2: "mset ?fs = mset ?gs" by simp
  have h3: "bitmapsAgree ?xs" by (simp add: bitmapsAgree_def)
  have h4: "fontsAgree ?fs" by (simp add: fontsAgree_def)
  have h5: "\<lparr>name = ''a'', layerIds = [''1'', ''3''], prerendered = True\<rparr>
       \<in> set (keepUniqueBitmapAssetDescriptors ?xs)"
    by (simp add: keepUniqueBitmapAssetDescriptors_def addBitmapAssetDesc_def mergeArrays_def Let_def)
  have h6: "\<lparr>fontPostScriptName = ''Arial'', fontPostScriptNameSynthetic = False,
             fontTypes = [''regular'', ''bold''], fontName = ''Arial'', fontLayerIds = [''1'', ''2'']\<rparr>
       \<in> set (keepUniqueFontDescriptors ?fs)"
    by (simp add: keepUniqueFontDescriptors_def addFontDesc_def mergeArrays_def Let_def)
  note T = keepUnique_first_occurrence_merge[of ?xs ?ys ?fs ?gs]
  note T6 = T[THEN conjunct2, THEN conjunct2, THEN conjunct2, THEN conjunct2, THEN conjunct2,
      THEN conjunct1]
  note T12 = T[THEN conjunct2, THEN conjunct2, THEN conjunct2, THEN conjunct2, THEN conjunct2,
      THEN conjunct2, THEN conjunct2, THEN conjunct2, THEN conjunct2, THEN conjunct2,
      THEN conjunct2]
  have r1: "bitmapUpToOrder (keepUniqueBitmapAssetDescriptors ?xs)
      = bitmapUpToOrder (keepUniqueBitmapAssetDescriptors ?ys)"
    by (rule T6[THEN mp]) (rule conjI[OF h1 h3])
  have r2: "fontUpToOrder (keepUniqueFontDescriptors ?fs)
      = fontUpToOrder (keepUniqueFontDescriptors ?gs)"
    by (rule T12[THEN mp]) (rule conjI[OF h2 h4])
  show ?thesis
    by (rule conjI[OF h1 conjI[OF h3 conjI[OF h5 conjI[OF r1 conjI[OF h2 conjI[OF h4 conjI[OF h6 r2]]]]]]])
qed


section \<open>C10: the registry of content loads is never cleared\<close>

text \<open>
  C10: entries of \<^verbatim>\<open>_loadingArtboardPromises\<close> are never removed.
  \<^item> \<open>loadArtboard\<close>, \<open>unloadArtboard\<close> and the rendering load keep every entry, and keep a
    settled entry as it is (\<open>unloadArtboard\<close> leaves the registry untouched).
  \<^item> A \<open>loadArtboard\<close> for an artboard that is not loaded leaves an entry behind: a content
    load that has been started is registered; started by this call, it is registered as
    rejected with the error of the read when the read fails, and as fulfilled when the call
    returns.
  \<^item> A \<open>loadArtboard\<close> for an artboard with an entry makes no request and changes nothing: it
    waits for the stored promise, returns when that is fulfilled, and throws the stored error
    when that is rejected.
  \<^item> After a fulfilled load, \<open>unloadArtboard\<close> drops the content, and the next \<open>loadArtboard\<close>
    returns without a request, leaving the artboard without content.
\<close>

theorem content_load_registry_is_never_cleared:
  "(drive (loadArtboard env b) w = (r, w') \<longrightarrow> keepsEntries w w')
   \<and> (drive (unloadArtboard env b) w = (r, w') \<longrightarrow>
        loadingArtboardPromises w' = loadingArtboardPromises w)
   \<and> (drive (loadRenderingDesignArtboard env n b ps) w = (r, w') \<longrightarrow> keepsEntries w w')
   \<and> (getArtboardById w a \<noteq> None \<and> \<not> isLoaded w a \<and> drive (loadArtboard env a) w = (r1, w1) \<longrightarrow>
        loadingArtboardPromises w1 a \<noteq> None
        \<and> (loadingArtboardPromises w a = None \<longrightarrow>
             (\<forall>e. r1 = Stopped (Threw e) \<longrightarrow> loadingArtboardPromises w1 a = Some (RejectedWith e))
             \<and> (r1 = Returned () \<longrightarrow> loadingArtboardPromises w1 a = Some Fulfilled)))
   \<and> (getArtboardById w a \<noteq> None \<and> loadingArtboardPromises w a = Some p \<longrightarrow>
        drive (loadArtboard env a) w =
          (case p of Pending \<Rightarrow> Stopped Blocked | Fulfilled \<Rightarrow> Returned ()
                 | RejectedWith e \<Rightarrow> Stopped (Threw e), w))
   \<and> (getArtboardById w a \<noteq> None \<and> isLoaded w a \<and> loadingArtboardPromises w a = Some Fulfilled
        \<and> drive (unloadArtboard env a) w = (r2, w2) \<longrightarrow>
        \<not> isLoaded w2 a \<and> drive (loadArtboard env a) w2 = (Returned (), w2))"
proof -
  have c1: "drive (loadArtboard env b) w = (r, w') \<longrightarrow> keepsEntries w w'"
  proof
    assume "drive (loadArtboard env b) w = (r, w')"
    then have "grows w w'" by (rule presD[OF pres_loadArtboard[OF closedUnder_grows]])
    then show "keepsEntries w w'" by (rule grows_keepsEntries)
  qed
  have c2: "drive (unloadArtboard env b) w = (r, w') \<longrightarrow>
        loadingArtboardPromises w' = loadingArtboardPromises w"
  proof
    assume "drive (unloadArtboard env b) w = (r, w')"
    then show "loadingArtboardPromises w' = loadingArtboardPromises w"
      by (rule drive_unloadArtboard_registry)
  qed
  have c3: "drive (loadRenderingDesignArtboard env n b ps) w = (r, w') \<longrightarrow> keepsEntries w w'"
  proof
    assume "drive (loadRenderingDesignArtboard env n b ps) w = (r, w')"
    then have "grows w w'" by (rule presD[OF pres_grows_load])
    then show "keepsEntries w w'" by (rule grows_keepsEntries)
  qed
  have c4: "getArtboardById w a \<noteq> None \<and> \<not> isLoaded w a \<and> drive (loadArtboard env a) w = (r1, w1) \<longrightarrow>
        loadingArtboardPromises w1 a \<noteq> None
        \<and> (loadingArtboardPromises w a = None \<longrightarrow>
             (\<forall>e. r1 = Stopped (Threw e) \<longrightarrow> loadingArtboardPromises w1 a = Some (RejectedWith e))
             \<and> (r1 = Returned () \<longrightarrow> loadingArtboardPromises w1 a = Some Fulfilled))"
    using drive_loadArtboard_started[of w a env r1 w1] by blast
  have c5: "getArtboardById w a \<noteq> None \<and> loadingArtboardPromises w a = Some p \<longrightarrow>
        drive (loadArtboard env a) w =
          (case p of Pending \<Rightarrow> Stopped Blocked | Fulfilled \<Rightarrow> Returned ()
                 | RejectedWith e \<Rightarrow> Stopped (Threw e), w)"
    using drive_loadArtboard_registered[of w a p env] by blast
  have c6: "getArtboardById w a \<noteq> None \<and> isLoaded w a \<and> loadingArtboardPromises w a = Some Fulfilled
        \<and> drive (unloadArtboard env a) w = (r2, w2) \<longrightarrow>
        \<not> isLoaded w2 a \<and> drive (loadArtboard env a) w2 = (Returned (), w2)"
  proof
    assume h: "getArtboardById w a \<noteq> None \<and> isLoaded w a \<and> loadingArtboardPromises w a = Some Fulfilled
        \<and> drive (unloadArtboard env a) w = (r2, w2)"
    then have se: "sameEntities (setOctopus a None w) w2"
      using drive_unloadArtboard_loaded[of w a env r2 w2] by blast
    have ab: "artboardsById w2 = artboardsById (setOctopus a None w)"
      and pr: "loadingArtboardPromises w2 = loadingArtboardPromises w"
      using se by (simp_all add: sameEntities_def)
    have nl: "\<not> isLoaded w2 a"
      using h by (auto simp: isLoaded_def ab setOctopus_def getArtboardById_def split: option.splits)
    have ex: "getArtboardById w2 a \<noteq> None"
      using h by (auto simp: ab setOctopus_def getArtboardById_def split: option.splits)
    have "loadingArtboardPromises w2 a = Some Fulfilled" using h pr by simp
    then have "drive (loadArtboard env a) w2 = (Returned (), w2)"
      using drive_loadArtboard_registered[OF ex, of Fulfilled env] by simp
    then show "\<not> isLoaded w2 a \<and> drive (loadArtboard env a) w2 = (Returned (), w2)"
      using nl by simp
  qed
  note parts = c1 c2 c3 c4 c5 c6
  show ?thesis
    by (rule conjI, rule parts)+ (rule parts)
qed

theorem content_load_registry_is_never_cleared_witness:
  "fst (drive (loadArtboard brokenStoreEnv ''A'') exampleWorld)
     = Stopped (Threw (Error ''The content cannot be read''))
   \<and> loadingArtboardPromises (snd (drive (loadArtboard brokenStoreEnv ''A'') exampleWorld)) ''A''
     = Some (RejectedWith (Error ''The content cannot be read''))
   \<and> drive (loadArtboard okEnv ''A'') (snd (drive (loadArtboard brokenStoreEnv ''A'') exampleWorld))
     = (Stopped (Threw (Error ''The content cannot be read'')),
        snd (drive (loadArtboard brokenStoreEnv ''A'') exampleWorld))
   \<and> isLoaded (snd (drive (loadArtboard okEnv ''A'') exampleWorld)) ''A''
   \<and> \<not> isLoaded (snd (drive (unloadArtboard okEnv ''A'')
                      (snd (drive (loadArtboard okEnv ''A'') exampleWorld)))) ''A''
   \<and> drive (loadArtboard okEnv ''A'')
        (snd (drive (unloadArtboard okEnv ''A'') (snd (drive (loadArtboard okEnv ''A'') exampleWorld))))
     = (Returned (),
        snd (drive (unloadArtboard okEnv ''A'') (snd (drive (loadArtboard okEnv ''A'') exampleWorld))))"
proof -
  let ?d = "drive (loadArtboard brokenStoreEnv ''A'') exampleWorld"
  let ?l = "drive (loadArtboard okEnv ''A'') exampleWorld"
  let ?u = "drive (unloadArtboard okEnv ''A'') (snd ?l)"
  note defs = loadArtboard_def loadArtboardContent_def unloadArtboard_def
    renderingDesignUnloadArtboard_def request_def modify_def awaitPromise_def settled_def
    getArtboardById_def isLoaded_def setOctopus_def setLoadingArtboardPromise_def
    okEnvWith_def okEnv_def brokenStoreEnv_def exampleWorld_def
  have ex: "getArtboardById exampleWorld ''A'' \<noteq> None" by (simp add: defs)
  have nl: "\<not> isLoaded exampleWorld ''A''" by (simp add: defs)
  have none: "loadingArtboardPromises exampleWorld ''A'' = None" by (simp add: defs)
  have fd: "fst ?d = Stopped (Threw (Error ''The content cannot be read''))" by (simp add: defs)
  have d: "?d = (fst ?d, snd ?d)" by simp
  note T1 = content_load_registry_is_never_cleared[where w=exampleWorld and a="''A''"
      and env=brokenStoreEnv and ?r1.0="fst ?d" and ?w1.0="snd ?d"]
  have rej: "loadingArtboardPromises (snd ?d) ''A'' = Some (RejectedWith (Error ''The content cannot be read''))"
    using T1 ex nl none fd d by blast
  have ex1: "getArtboardById (snd ?d) ''A'' \<noteq> None" by (simp add: defs)
  note T2 = content_load_registry_is_never_cleared[where w="snd ?d" and a="''A''"
      and env=okEnv and p="RejectedWith (Error ''The content cannot be read'')"]
  have again: "drive (loadArtboard okEnv ''A'') (snd ?d)
     = (Stopped (Threw (Error ''The content cannot be read'')), snd ?d)"
    using T2 ex1 rej by simp
  have exl: "getArtboardById (snd ?l) ''A'' \<noteq> None" by (simp add: defs)
  have il: "isLoaded (snd ?l) ''A''" by (simp add: defs)
  have fl: "loadingArtboardPromises (snd ?l) ''A'' = Some Fulfilled" by (simp add: defs)
  have u: "?u = (fst ?u, snd ?u)" by simp
  note T3 = content_load_registry_is_never_cleared[where w="snd ?l" and a="''A''"
      and env=okEnv and ?r2.0="fst ?u" and ?w2.0="snd ?u"]
  have un: "\<not> isLoaded (snd ?u) ''A'' \<and> drive (loadArtboard okEnv ''A'') (snd ?u) = (Returned (), snd ?u)"
    using T3 exl il fl u by blast
  show ?thesis using fd rej again il un by blast
qed


end

